theory Spec2Isabelle
  imports Main "HOL-Library.Sublist"
begin

section \<open>miko: the run supervisor of \<^verbatim>\<open>main.go\<close>\<close>

text \<open>
  The development embeds the run lifecycle of \<^verbatim>\<open>main.go\<close>: the method \<^verbatim>\<open>mito\<close>
  (workspace, argument list, spawn, the two stream readers and the reaping goroutine),
  the Run, Cancel and Clear Output button commands, \<^verbatim>\<open>printError\<close> and the ticker that
  drains the channel \<^verbatim>\<open>m.results\<close>. Calls into the operating system and the Go
  library are fallible; their outcomes are inputs of the model, so every theorem
  quantifies over all of them.
\<close>

subsection \<open>Errors\<close>

text \<open>
  Go error values. \<open>EOF\<close> is \<^verbatim>\<open>io.EOF\<close>, \<open>ErrClosed\<close> is \<^verbatim>\<open>fs.ErrClosed\<close>,
  \<open>PathError op path err\<close> is a \<^verbatim>\<open>*fs.PathError\<close>, \<open>Wrapped msg err\<close> is an error
  whose \<^verbatim>\<open>Unwrap\<close> gives \<open>err\<close>, and \<open>Other msg\<close> is any error without a chain.
\<close>

datatype error =
    EOF
  | ErrClosed
  | PathError string string error
  | Wrapped string error
  | Other string

text \<open>The method \<^verbatim>\<open>Error()\<close>: the message of an error.\<close>

fun Error :: "error \<Rightarrow> string" where
  "Error EOF = ''EOF''"
| "Error ErrClosed = ''file already closed''"
| "Error (PathError op path err) = op @ '' '' @ path @ '': '' @ Error err"
| "Error (Wrapped msg err) = msg"
| "Error (Other msg) = msg"

text \<open>
  \<^verbatim>\<open>errors.As(err, &pe)\<close> with \<^verbatim>\<open>pe\<close> a \<^verbatim>\<open>*fs.PathError\<close>: the first path error on
  the chain of \<open>err\<close>, returned as its three fields.
\<close>

fun errors_As :: "error \<Rightarrow> (string \<times> string \<times> error) option" where
  "errors_As (PathError op path err) = Some (op, path, err)"
| "errors_As (Wrapped msg err) = errors_As err"
| "errors_As EOF = None"
| "errors_As ErrClosed = None"
| "errors_As (Other msg) = None"

text \<open>
  The case \<^verbatim>\<open>err == io.EOF, errors.As(err, &pe) && pe.Err == fs.ErrClosed\<close> of both
  stream readers.
\<close>

definition end_of_stream :: "error \<Rightarrow> bool" where
  "end_of_stream err =
     (err = EOF \<or> (case errors_As err of None \<Rightarrow> False | Some (op, path, e) \<Rightarrow> e = ErrClosed))"

subsection \<open>State\<close>

type_synonym pid = nat
type_synonym path = string

text \<open>The struct \<^verbatim>\<open>text\<close>: one value sent over \<^verbatim>\<open>m.results\<close>.\<close>

record text_t =
  text_data :: string
  text_tag :: string

text \<open>
  What the program does to the world, in the order it does it: the calls into the
  operating system, and the cancellation of a reader's context (its done signal).
  \<open>CallWait i\<close>, \<open>StdoutDone i\<close> and \<open>StderrDone i\<close> carry the index of the run they
  belong to.
\<close>

datatype action =
    CallKill pid
  | CallMkdirTemp
  | CallWriteFile path string
  | CallRemoveAll path
  | CallCommand string "string list"
  | CallStdoutPipe
  | CallStderrPipe
  | CallStart
  | CallWait nat
  | StdoutDone nat
  | StderrDone nat

text \<open>
  The goroutine started at the end of \<^verbatim>\<open>mito\<close>: it receives from
  \<^verbatim>\<open>ctxStdout.Done()\<close>, then from \<^verbatim>\<open>ctxStderr.Done()\<close>, then waits for the command,
  clears \<^verbatim>\<open>m.ps\<close> and removes the directory.
\<close>

datatype reaper_pc = AwaitStdout | AwaitStderr | Ready | Finished

text \<open>
  The goroutines of one call of \<^verbatim>\<open>mito\<close> and the variables they close over.
  \<open>reaper\<close> is \<open>None\<close> when \<^verbatim>\<open>cmd.Start\<close> failed: the readers run, the reaping
  goroutine was never started.
\<close>

record run =
  run_dir :: path
  run_keep :: bool
  run_pid :: "pid option"
  stdout_done :: bool
  stderr_done :: bool
  reaper :: "reaper_pc option"

text \<open>
  The struct \<^verbatim>\<open>miko\<close> together with the world around it. \<open>src\<close>, \<open>data\<close>, \<open>cfg\<close> are the
  texts of the three input widgets and \<open>display\<close> the chunks inserted into the output
  widget, each with its tag. \<open>results\<close> is the sequence of values that have passed
  through the channel \<^verbatim>\<open>m.results\<close>, \<open>logged\<close> the lines printed by \<^verbatim>\<open>log.Println\<close>,
  \<open>files\<close> and \<open>dirs\<close> the file system, \<open>runs\<close> the goroutines, \<open>history\<close> the actions
  so far.
\<close>

record miko =
  ps :: "pid option"
  src :: string
  data :: string
  cfg :: string
  display :: "(string \<times> string) list"
  insecure :: bool
  logRequests :: bool
  dumpCrash :: bool
  results :: "text_t list"
  logged :: "string list"
  files :: "(path \<times> string) list"
  dirs :: "path list"
  runs :: "run list"
  history :: "action list"

text \<open>
  \<^verbatim>\<open>newMiko\<close>: no process, empty widgets, nothing sent or logged; the file system is
  whatever it is when the program starts.
\<close>

definition newMiko :: "(path \<times> string) list \<Rightarrow> path list \<Rightarrow> miko" where
  "newMiko fs ds =
     \<lparr>ps = None, src = [], data = [], cfg = [], display = [],
      insecure = False, logRequests = False, dumpCrash = False,
      results = [], logged = [], files = fs, dirs = ds, runs = [], history = []\<rparr>"

subsection \<open>The operating system\<close>

text \<open>
  \<^verbatim>\<open>os.WriteFile\<close> either succeeds or fails; when it fails it may have created the
  file already, with part of the content.
\<close>

datatype write_result = WriteOk | WriteErr error "string option"

text \<open>
  The outcomes of the fallible calls of one execution of \<^verbatim>\<open>mito\<close>:
  \<^verbatim>\<open>os.MkdirTemp\<close> (an error or the new directory), \<^verbatim>\<open>os.WriteFile\<close> for each path,
  \<^verbatim>\<open>cmd.StdoutPipe\<close>, \<^verbatim>\<open>cmd.StderrPipe\<close> and \<^verbatim>\<open>cmd.Start\<close> (an error or the
  process).
\<close>

record oscalls =
  os_MkdirTemp :: "error + path"
  os_WriteFile :: "path \<Rightarrow> write_result"
  cmd_StdoutPipe :: "error option"
  cmd_StderrPipe :: "error option"
  cmd_Start :: "error + pid"

definition act :: "action \<Rightarrow> miko \<Rightarrow> miko" where
  "act a s = s\<lparr>history := history s @ [a]\<rparr>"

text \<open>
  \<^verbatim>\<open>filepath.Join(dir, name)\<close> for a directory returned by \<^verbatim>\<open>os.MkdirTemp\<close> (a clean
  path) and a plain file name.
\<close>

definition filepath_Join :: "path \<Rightarrow> string \<Rightarrow> path" where
  "filepath_Join dir name = dir @ ''/'' @ name"

text \<open>A path lies inside a directory.\<close>

definition inside :: "path \<Rightarrow> path \<Rightarrow> bool" where
  "inside dir p = prefix (dir @ ''/'') p"

definition files_in :: "path \<Rightarrow> miko \<Rightarrow> (path \<times> string) list" where
  "files_in dir s = filter (\<lambda>(p, c). inside dir p) (files s)"

definition put_file :: "path \<Rightarrow> string \<Rightarrow> (path \<times> string) list \<Rightarrow> (path \<times> string) list" where
  "put_file p c fs = filter (\<lambda>(q, d). q \<noteq> p) fs @ [(p, c)]"

definition MkdirTemp :: "oscalls \<Rightarrow> miko \<Rightarrow> (error + path) \<times> miko" where
  "MkdirTemp os s =
     (os_MkdirTemp os,
      (act CallMkdirTemp s)
        \<lparr>dirs := (case os_MkdirTemp os of Inl err \<Rightarrow> dirs s | Inr dir \<Rightarrow> dirs s @ [dir])\<rparr>)"

text \<open>The error of a write, and the files it leaves behind.\<close>

definition write_error :: "write_result \<Rightarrow> error option" where
  "write_error w = (case w of WriteOk \<Rightarrow> None | WriteErr err part \<Rightarrow> Some err)"

definition written ::
  "write_result \<Rightarrow> path \<Rightarrow> string \<Rightarrow> (path \<times> string) list \<Rightarrow> (path \<times> string) list" where
  "written w p c fs =
     (case w of
        WriteOk \<Rightarrow> put_file p c fs
      | WriteErr err None \<Rightarrow> fs
      | WriteErr err (Some part) \<Rightarrow> put_file p part fs)"

definition WriteFile :: "oscalls \<Rightarrow> path \<Rightarrow> string \<Rightarrow> miko \<Rightarrow> error option \<times> miko" where
  "WriteFile os p c s =
     (write_error (os_WriteFile os p),
      (act (CallWriteFile p c) s)\<lparr>files := written (os_WriteFile os p) p c (files s)\<rparr>)"

text \<open>
  \<^verbatim>\<open>os.RemoveAll(dir)\<close>: the directory and everything inside it are gone. The source
  discards the result of the call; the model takes the removal to succeed.
\<close>

definition RemoveAll :: "path \<Rightarrow> miko \<Rightarrow> miko" where
  "RemoveAll dir s =
     (act (CallRemoveAll dir) s)
       \<lparr>files := filter (\<lambda>(p, c). p \<noteq> dir \<and> \<not> inside dir p) (files s),
        dirs := filter (\<lambda>d. d \<noteq> dir \<and> \<not> inside dir d) (dirs s)\<rparr>"

text \<open>\<^verbatim>\<open>execabs.Command(name, args...)\<close>: the command, not yet started.\<close>

definition Command :: "string \<Rightarrow> string list \<Rightarrow> miko \<Rightarrow> (string \<times> string list) \<times> miko" where
  "Command name args s = ((name, args), act (CallCommand name args) s)"

definition StdoutPipe :: "oscalls \<Rightarrow> miko \<Rightarrow> error option \<times> miko" where
  "StdoutPipe os s = (cmd_StdoutPipe os, act CallStdoutPipe s)"

definition StderrPipe :: "oscalls \<Rightarrow> miko \<Rightarrow> error option \<times> miko" where
  "StderrPipe os s = (cmd_StderrPipe os, act CallStderrPipe s)"

definition Start :: "oscalls \<Rightarrow> miko \<Rightarrow> (error + pid) \<times> miko" where
  "Start os s = (cmd_Start os, act CallStart s)"

definition Kill :: "pid \<Rightarrow> error option \<Rightarrow> miko \<Rightarrow> error option \<times> miko" where
  "Kill p res s = (res, act (CallKill p) s)"

subsection \<open>\<^verbatim>\<open>mito\<close>\<close>

text \<open>
  The deferred function of \<^verbatim>\<open>mito\<close>: it removes the directory when \<^verbatim>\<open>cmd\<close> is still
  nil at the return.
\<close>

definition deferred :: "(string \<times> string list) option \<Rightarrow> path \<Rightarrow> miko \<Rightarrow> miko" where
  "deferred cmd dir s = (if cmd = None then RemoveAll dir s else s)"

text \<open>
  The two \<^verbatim>\<open>go func\<close> statements of the readers register a run whose readers have
  not finished; the third one, after \<^verbatim>\<open>cmd.Start\<close>, starts the reaping goroutine of
  that run.
\<close>

definition go_readers :: "path \<Rightarrow> bool \<Rightarrow> miko \<Rightarrow> nat \<times> miko" where
  "go_readers dir keep s =
     (length (runs s),
      s\<lparr>runs := runs s @
          [\<lparr>run_dir = dir, run_keep = keep, run_pid = None,
            stdout_done = False, stderr_done = False, reaper = None\<rparr>]\<rparr>)"

definition go_reaper :: "nat \<Rightarrow> pid \<Rightarrow> miko \<Rightarrow> miko" where
  "go_reaper i p s =
     s\<lparr>runs := (runs s)[i := (runs s ! i)\<lparr>run_pid := Some p, reaper := Some AwaitStdout\<rparr>]\<rparr>"

text \<open>
  Lines 363 to 371 of \<^verbatim>\<open>mito\<close>: the input data, when there is any, is written to
  \<^verbatim>\<open>data.json\<close> and passed with \<^verbatim>\<open>-data\<close>. The result is the error of the write or
  the arguments so far.
\<close>

definition write_data ::
  "oscalls \<Rightarrow> path \<Rightarrow> string list \<Rightarrow> miko \<Rightarrow> (error + string list) \<times> miko" where
  "write_data os dir args s =
     (if data s \<noteq> [] then
        (let dataPath = filepath_Join dir ''data.json'' in
         (case WriteFile os dataPath (data s) s of
            (Some err, s) \<Rightarrow> (Inl err, s)
          | (None, s) \<Rightarrow> (Inr (args @ [''-data'', dataPath]), s)))
      else (Inr args, s))"

text \<open>Lines 372 to 380: the same for the configuration, \<^verbatim>\<open>cfg.yml\<close> and \<^verbatim>\<open>-cfg\<close>.\<close>

definition write_cfg ::
  "oscalls \<Rightarrow> path \<Rightarrow> string list \<Rightarrow> miko \<Rightarrow> (error + string list) \<times> miko" where
  "write_cfg os dir args s =
     (if cfg s \<noteq> [] then
        (let cfgPath = filepath_Join dir ''cfg.yml'' in
         (case WriteFile os cfgPath (cfg s) s of
            (Some err, s) \<Rightarrow> (Inl err, s)
          | (None, s) \<Rightarrow> (Inr (args @ [''-cfg'', cfgPath]), s)))
      else (Inr args, s))"

text \<open>Lines 381 to 389: the three check boxes.\<close>

definition option_flags :: "miko \<Rightarrow> string list \<Rightarrow> string list" where
  "option_flags s args =
     (let args = (if insecure s then args @ [''-insecure''] else args);
          args = (if logRequests s then args @ [''-log_requests''] else args);
          args = (if dumpCrash s then args @ [''-dump'', ''error''] else args)
      in args)"

text \<open>Lines 390 to 395: the program is written to \<^verbatim>\<open>src.cel\<close>, the last argument.\<close>

definition write_src ::
  "oscalls \<Rightarrow> path \<Rightarrow> string list \<Rightarrow> miko \<Rightarrow> (error + string list) \<times> miko" where
  "write_src os dir args s =
     (let srcPath = filepath_Join dir ''src.cel'' in
      (case WriteFile os srcPath (src s) s of
         (Some err, s) \<Rightarrow> (Inl err, s)
       | (None, s) \<Rightarrow> (Inr (args @ [srcPath]), s)))"

text \<open>
  Lines 396 to 460: the command, its two pipes, the two readers, the start of the
  process and the reaping goroutine. \<^verbatim>\<open>cmd\<close> is not nil from here on, which the
  deferred function sees at every return.
\<close>

definition spawn ::
  "bool \<Rightarrow> oscalls \<Rightarrow> path \<Rightarrow> string list \<Rightarrow> miko \<Rightarrow> (pid option \<times> error option) \<times> miko" where
  "spawn keep os dir args s =
     (case Command ''mito'' args s of (c, s) \<Rightarrow>
     (let cmd = Some c in
     (case StdoutPipe os s of
        (Some err, s) \<Rightarrow> ((None, Some err), deferred cmd dir s)
      | (None, s) \<Rightarrow>
     (case StderrPipe os s of
        (Some err, s) \<Rightarrow> ((None, Some err), deferred cmd dir s)
      | (None, s) \<Rightarrow>
     (case go_readers dir keep s of (i, s) \<Rightarrow>
     (case Start os s of
        (Inl err, s) \<Rightarrow> ((None, Some err), deferred cmd dir s)
      | (Inr p, s) \<Rightarrow> ((Some p, None), deferred cmd dir (go_reaper i p s))))))))"

text \<open>
  \<^verbatim>\<open>func (m *miko) mito(keep bool) (*os.Process, error)\<close>. The result is the pair of
  the process and the error, each possibly nil, and the state after the call.
\<close>

definition mito :: "bool \<Rightarrow> oscalls \<Rightarrow> miko \<Rightarrow> (pid option \<times> error option) \<times> miko" where
  "mito keep os s =
     (if src s = [] then ((None, None), s)
      else
       (case MkdirTemp os s of
          (Inl err, s) \<Rightarrow> ((None, Some err), s)
        | (Inr dir, s) \<Rightarrow>
       (let cmd = None in
       (case write_data os dir [] s of
          (Inl err, s) \<Rightarrow> ((None, Some err), deferred cmd dir s)
        | (Inr args, s) \<Rightarrow>
       (case write_cfg os dir args s of
          (Inl err, s) \<Rightarrow> ((None, Some err), deferred cmd dir s)
        | (Inr args, s) \<Rightarrow>
       (case write_src os dir (option_flags s args) s of
          (Inl err, s) \<Rightarrow> ((None, Some err), deferred cmd dir s)
        | (Inr args, s) \<Rightarrow> spawn keep os dir args s))))))"

subsection \<open>The button commands\<close>

text \<open>\<^verbatim>\<open>printError\<close>: nothing for nil, otherwise the message in the display, tagged \<open>error\<close>.\<close>

definition printError :: "error option \<Rightarrow> miko \<Rightarrow> miko" where
  "printError err s =
     (case err of
        None \<Rightarrow> s
      | Some e \<Rightarrow> s\<lparr>display := display s @ [(Error e @ [CHR 0x0A], ''error'')]\<rparr>)"

text \<open>
  The command of the Run button. \<open>kres\<close> is the result of \<^verbatim>\<open>ps.Kill()\<close>, should the
  call be made, \<open>os\<close> the outcomes for \<^verbatim>\<open>m.mito(false)\<close>.
\<close>

definition run_Command :: "error option \<Rightarrow> oscalls \<Rightarrow> miko \<Rightarrow> miko" where
  "run_Command kres os s =
     (let s = (case ps s of
                 None \<Rightarrow> s
               | Some p \<Rightarrow> (case Kill p kres s of (err, s) \<Rightarrow> printError err s))
      in case mito False os s of
           ((p, err), s) \<Rightarrow> printError err (s\<lparr>ps := p\<rparr>))"

text \<open>The command of the Cancel button.\<close>

definition cancel_Command :: "error option \<Rightarrow> miko \<Rightarrow> miko" where
  "cancel_Command kres s =
     (case ps s of
        None \<Rightarrow> s
      | Some p \<Rightarrow> (case Kill p kres s of (err, s) \<Rightarrow> printError err s))"

text \<open>The command of the Clear Output button.\<close>

definition clear_Command :: "miko \<Rightarrow> miko" where
  "clear_Command s = s\<lparr>display := []\<rparr>"

subsection \<open>The stream readers\<close>

text \<open>
  One call of \<^verbatim>\<open>dec.Decode(&v)\<close> returns a decoded value or an error that is not
  nil. One call of \<^verbatim>\<open>sc.Scan()\<close> returns true with a token, or false, after which
  \<^verbatim>\<open>sc.Err()\<close> is nil or an error.
\<close>

datatype 'v decode_result = Decoded 'v | DecodeError error

datatype scan_result = Token string | ScanEnd "error option"

text \<open>
  What a reader does: it sends a value over \<^verbatim>\<open>m.results\<close>, it prints a line with
  \<^verbatim>\<open>log.Println\<close>, it returns (and its deferred cancel function fires its done
  signal).
\<close>

datatype effect = Send text_t | Println string | Return

text \<open>
  One pass of the loop of the reader of standard output. \<open>mi\<close> is
  \<^verbatim>\<open>json.MarshalIndent(v, "", "\t")\<close>: an error or the text.
\<close>

definition stdout_pass :: "('v \<Rightarrow> error + string) \<Rightarrow> 'v decode_result \<Rightarrow> effect list" where
  "stdout_pass mi r =
     (case r of
        Decoded v \<Rightarrow>
          (case mi v of
             Inl err \<Rightarrow> [Println (Error err), Return]
           | Inr b \<Rightarrow> [Send \<lparr>text_data = b, text_tag = ''output''\<rparr>])
      | DecodeError err \<Rightarrow>
          (if end_of_stream err then [Return] else [Println (Error err), Return]))"

text \<open>
  The reader of standard output on the results of its successive calls of
  \<^verbatim>\<open>Decode\<close>: the loop goes on until a pass returns. When the results run out
  before that, the reader is blocked in \<^verbatim>\<open>Decode\<close> and has not returned.
\<close>

fun stdout_reader :: "('v \<Rightarrow> error + string) \<Rightarrow> 'v decode_result list \<Rightarrow> effect list" where
  "stdout_reader mi [] = []"
| "stdout_reader mi (r # rs) =
     (if Return \<in> set (stdout_pass mi r) then stdout_pass mi r
      else stdout_pass mi r @ stdout_reader mi rs)"

text \<open>
  One step of the reader of standard error: a pass of the loop
  \<^verbatim>\<open>for sc.Scan()\<close>, or the switch on \<^verbatim>\<open>sc.Err()\<close> after the loop.
\<close>

definition stderr_pass :: "scan_result \<Rightarrow> effect list" where
  "stderr_pass r =
     (case r of
        Token line \<Rightarrow> [Send \<lparr>text_data = line, text_tag = ''error''\<rparr>]
      | ScanEnd None \<Rightarrow> [Return]
      | ScanEnd (Some err) \<Rightarrow>
          (if end_of_stream err then [Return] else [Println (Error err), Return]))"

fun stderr_reader :: "scan_result list \<Rightarrow> effect list" where
  "stderr_reader [] = []"
| "stderr_reader (r # rs) =
     (if Return \<in> set (stderr_pass r) then stderr_pass r
      else stderr_pass r @ stderr_reader rs)"

subsection \<open>The goroutines together\<close>

text \<open>
  The function of the ticker, in the case where it receives a value: the text and a
  newline go into the display under the tag of the value.
\<close>

definition ticker :: "text_t \<Rightarrow> miko \<Rightarrow> miko" where
  "ticker t s = s\<lparr>display := display s @ [(text_data t @ [CHR 0x0A], text_tag t)]\<rparr>"

text \<open>
  \<^verbatim>\<open>m.results\<close> has no buffer: a send completes when the ticker receives the value,
  so the two happen together.
\<close>

definition send :: "text_t \<Rightarrow> miko \<Rightarrow> miko" where
  "send t s = ticker t (s\<lparr>results := results s @ [t]\<rparr>)"

datatype stream = Stdout | Stderr

definition cancel_ctx :: "stream \<Rightarrow> nat \<Rightarrow> miko \<Rightarrow> miko" where
  "cancel_ctx st i s =
     (case st of
        Stdout \<Rightarrow> (act (StdoutDone i) s)\<lparr>runs := (runs s)[i := (runs s ! i)\<lparr>stdout_done := True\<rparr>]\<rparr>
      | Stderr \<Rightarrow> (act (StderrDone i) s)\<lparr>runs := (runs s)[i := (runs s ! i)\<lparr>stderr_done := True\<rparr>]\<rparr>)"

fun perform :: "stream \<Rightarrow> nat \<Rightarrow> effect \<Rightarrow> miko \<Rightarrow> miko" where
  "perform st i (Send t) s = send t s"
| "perform st i (Println line) s = s\<lparr>logged := logged s @ [line]\<rparr>"
| "perform st i Return s = cancel_ctx st i s"

text \<open>
  The body of the reaping goroutine after its two receives:
  \<^verbatim>\<open>cmd.Wait(); m.ps.Store(nil); if !keep { os.RemoveAll(dir) }\<close>.
\<close>

definition finalize :: "nat \<Rightarrow> miko \<Rightarrow> miko" where
  "finalize i s =
     (let keep = run_keep (runs s ! i);
          dir = run_dir (runs s ! i);
          s = act (CallWait i) s;
          s = s\<lparr>ps := None\<rparr>
      in if \<not> keep then RemoveAll dir s else s)"

definition set_reaper :: "nat \<Rightarrow> reaper_pc \<Rightarrow> miko \<Rightarrow> miko" where
  "set_reaper i pc s = s\<lparr>runs := (runs s)[i := (runs s ! i)\<lparr>reaper := Some pc\<rparr>]\<rparr>"

text \<open>
  What can happen next: the user presses a button, ticks a box or edits an input; the
  reader of a run makes one pass on what its stream gives it; the reaping goroutine
  of a run moves on. A receive from a done channel can only happen once the context
  is cancelled, and a goroutine that has returned does nothing more: there the event
  is not possible and the step is \<open>None\<close>.
\<close>

datatype 'v event =
    RunClick "error option" oscalls
  | CancelClick "error option"
  | ClearClick
  | ToggleInsecure
  | ToggleLogRequests
  | ToggleDumpCrash
  | EditSrc string
  | EditData string
  | EditCfg string
  | StdoutPass nat "'v decode_result"
  | StderrPass nat scan_result
  | ReaperStep nat

fun step :: "('v \<Rightarrow> error + string) \<Rightarrow> miko \<Rightarrow> 'v event \<Rightarrow> miko option" where
  "step mi s (RunClick kres os) = Some (run_Command kres os s)"
| "step mi s (CancelClick kres) = Some (cancel_Command kres s)"
| "step mi s ClearClick = Some (clear_Command s)"
| "step mi s ToggleInsecure = Some (s\<lparr>insecure := \<not> insecure s\<rparr>)"
| "step mi s ToggleLogRequests = Some (s\<lparr>logRequests := \<not> logRequests s\<rparr>)"
| "step mi s ToggleDumpCrash = Some (s\<lparr>dumpCrash := \<not> dumpCrash s\<rparr>)"
| "step mi s (EditSrc t) = Some (s\<lparr>src := t\<rparr>)"
| "step mi s (EditData t) = Some (s\<lparr>data := t\<rparr>)"
| "step mi s (EditCfg t) = Some (s\<lparr>cfg := t\<rparr>)"
| "step mi s (StdoutPass i r) =
     (if i < length (runs s) \<and> \<not> stdout_done (runs s ! i)
      then Some (fold (perform Stdout i) (stdout_pass mi r) s) else None)"
| "step mi s (StderrPass i r) =
     (if i < length (runs s) \<and> \<not> stderr_done (runs s ! i)
      then Some (fold (perform Stderr i) (stderr_pass r) s) else None)"
| "step mi s (ReaperStep i) =
     (if i < length (runs s) then
        (case reaper (runs s ! i) of
           None \<Rightarrow> None
         | Some AwaitStdout \<Rightarrow>
             (if stdout_done (runs s ! i) then Some (set_reaper i AwaitStderr s) else None)
         | Some AwaitStderr \<Rightarrow>
             (if stderr_done (runs s ! i) then Some (set_reaper i Ready s) else None)
         | Some Ready \<Rightarrow> Some (set_reaper i Finished (finalize i s))
         | Some Finished \<Rightarrow> None)
      else None)"

fun exec :: "('v \<Rightarrow> error + string) \<Rightarrow> miko \<Rightarrow> 'v event list \<Rightarrow> miko option" where
  "exec mi s [] = Some s"
| "exec mi s (e # es) = (case step mi s e of None \<Rightarrow> None | Some s' \<Rightarrow> exec mi s' es)"

subsection \<open>Notions used in the statements\<close>

text \<open>
  The part of \<^verbatim>\<open>mito\<close> before the command exists: the three writes and the flags.
  While it runs \<^verbatim>\<open>cmd\<close> is nil.
\<close>

definition prepare :: "oscalls \<Rightarrow> path \<Rightarrow> miko \<Rightarrow> (error + string list) \<times> miko" where
  "prepare os dir s =
     (case write_data os dir [] s of
        (Inl err, s) \<Rightarrow> (Inl err, s)
      | (Inr args, s) \<Rightarrow>
     (case write_cfg os dir args s of
        (Inl err, s) \<Rightarrow> (Inl err, s)
      | (Inr args, s) \<Rightarrow> write_src os dir (option_flags s args) s))"

definition new_run :: "path \<Rightarrow> bool \<Rightarrow> run" where
  "new_run dir keep =
     \<lparr>run_dir = dir, run_keep = keep, run_pid = None,
      stdout_done = False, stderr_done = False, reaper = None\<rparr>"

text \<open>Everything outside a directory.\<close>

definition outside :: "path \<Rightarrow> (path \<times> string) list \<Rightarrow> (path \<times> string) list" where
  "outside dir fs = filter (\<lambda>(p, c). p \<noteq> dir \<and> \<not> inside dir p) fs"

text \<open>
  A directory is fresh, as \<^verbatim>\<open>os.MkdirTemp\<close> promises of the one it creates: it does
  not exist, and nothing lies inside it.
\<close>

definition fresh :: "path \<Rightarrow> miko \<Rightarrow> bool" where
  "fresh dir s =
     (dir \<notin> set (dirs s) \<and> (\<forall>d \<in> set (dirs s). \<not> inside dir d) \<and>
      (\<forall>(p, c) \<in> set (files s). p \<noteq> dir \<and> \<not> inside dir p))"

text \<open>The user changes nothing, sends nothing, logs nothing between two states.\<close>

definition same_ui :: "miko \<Rightarrow> miko \<Rightarrow> bool" where
  "same_ui s t =
     (ps t = ps s \<and> src t = src s \<and> data t = data s \<and> cfg t = cfg s \<and>
      display t = display s \<and> insecure t = insecure s \<and> logRequests t = logRequests s \<and>
      dumpCrash t = dumpCrash s \<and> results t = results s \<and> logged t = logged s)"

text \<open>
  Two states between which the user interface is the same and the history has only
  grown; in the first relation the goroutines are the same too.
\<close>

definition quiet :: "miko \<Rightarrow> miko \<Rightarrow> bool" where
  "quiet s t = (same_ui s t \<and> runs t = runs s \<and> prefix (history s) (history t))"

definition calm :: "miko \<Rightarrow> miko \<Rightarrow> bool" where
  "calm s t = (same_ui s t \<and> prefix (history s) (history t))"

text \<open>Outcomes in which every call succeeds, for the examples.\<close>

definition all_ok :: "path \<Rightarrow> pid \<Rightarrow> oscalls" where
  "all_ok dir p =
     \<lparr>os_MkdirTemp = Inr dir, os_WriteFile = (\<lambda>q. WriteOk),
      cmd_StdoutPipe = None, cmd_StderrPipe = None, cmd_Start = Inr p\<rparr>"

text \<open>The values an effect list sends, and the lines it prints.\<close>

fun sends :: "effect list \<Rightarrow> text_t list" where
  "sends [] = []"
| "sends (Send t # es) = t # sends es"
| "sends (Println line # es) = sends es"
| "sends (Return # es) = sends es"

fun prints :: "effect list \<Rightarrow> string list" where
  "prints [] = []"
| "prints (Send t # es) = prints es"
| "prints (Println line # es) = line # prints es"
| "prints (Return # es) = prints es"

text \<open>
  For the example of two records: what \<^verbatim>\<open>json.MarshalIndent(v, "", "\t")\<close> gives
  for the objects \<^verbatim>\<open>{"a":1}\<close> and \<^verbatim>\<open>{"b":2}\<close>, each named by its compact text.
\<close>

definition indented :: "string \<Rightarrow> string" where
  \<open>indented v =
     (if v = ''{"a":1}'' then ''{'' @ [CHR 0x0A, CHR 0x09] @ ''"a": 1'' @ [CHR 0x0A] @ ''}''
      else if v = ''{"b":2}'' then ''{'' @ [CHR 0x0A, CHR 0x09] @ ''"b": 2'' @ [CHR 0x0A] @ ''}''
      else [])\<close>

text \<open>The processes that were started, in the order of their runs.\<close>

fun pids_of :: "run list \<Rightarrow> pid list" where
  "pids_of [] = []"
| "pids_of (r # rs) = (case run_pid r of None \<Rightarrow> pids_of rs | Some p \<Rightarrow> p # pids_of rs)"

text \<open>
  Every process that was started is the one in the slot, or \<^verbatim>\<open>Kill\<close> has been called
  on it.
\<close>

definition others_killed :: "miko \<Rightarrow> bool" where
  "others_killed s =
     (\<forall>p \<in> set (pids_of (runs s)). ps s = Some p \<or> CallKill p \<in> set (history s))"

fun is_ReaperStep :: "'v event \<Rightarrow> bool" where
  "is_ReaperStep (ReaperStep i) = True"
| "is_ReaperStep e = False"

text \<open>The processes on which \<^verbatim>\<open>Kill\<close> was called, in the order of the calls.\<close>

fun kills :: "action list \<Rightarrow> pid list" where
  "kills [] = []"
| "kills (CallKill p # as) = p # kills as"
| "kills (a # as) = kills as"

text \<open>
  The argument list in the words of the specification: \<^verbatim>\<open>-data\<close> and its path when
  there is input data, \<^verbatim>\<open>-cfg\<close> and its path when there is a configuration, the flag
  of each option that is switched on, and last the path of the program text.
\<close>

definition spec_args :: "path \<Rightarrow> miko \<Rightarrow> string list" where
  "spec_args dir s =
     (if data s \<noteq> [] then [''-data'', filepath_Join dir ''data.json''] else []) @
     (if cfg s \<noteq> [] then [''-cfg'', filepath_Join dir ''cfg.yml''] else []) @
     (if insecure s then [''-insecure''] else []) @
     (if logRequests s then [''-log_requests''] else []) @
     (if dumpCrash s then [''-dump'', ''error''] else []) @
     [filepath_Join dir ''src.cel'']"

text \<open>
  The files of a workspace in the words of the specification: the program text
  always, the input data and the configuration when they are not empty.
\<close>

definition spec_files :: "path \<Rightarrow> miko \<Rightarrow> (path \<times> string) list" where
  "spec_files dir s =
     (if data s \<noteq> [] then [(filepath_Join dir ''data.json'', data s)] else []) @
     (if cfg s \<noteq> [] then [(filepath_Join dir ''cfg.yml'', cfg s)] else []) @
     [(filepath_Join dir ''src.cel'', src s)]"

definition payload_count :: "miko \<Rightarrow> nat" where
  "payload_count s =
     (if data s \<noteq> [] then 1 else 0) + (if cfg s \<noteq> [] then 1 else 0) + 1"

text \<open>The error of the first write that fails, among the writes that are made.\<close>

definition first_write_error :: "oscalls \<Rightarrow> path \<Rightarrow> miko \<Rightarrow> error option" where
  "first_write_error os dir s =
     (case (if data s \<noteq> [] then write_error (os_WriteFile os (filepath_Join dir ''data.json''))
            else None) of
        Some err \<Rightarrow> Some err
      | None \<Rightarrow>
     (case (if cfg s \<noteq> [] then write_error (os_WriteFile os (filepath_Join dir ''cfg.yml''))
            else None) of
        Some err \<Rightarrow> Some err
      | None \<Rightarrow> write_error (os_WriteFile os (filepath_Join dir ''src.cel''))))"

definition put_files :: "(path \<times> string) list \<Rightarrow> (path \<times> string) list \<Rightarrow> (path \<times> string) list" where
  "put_files ws fs = fold (\<lambda>(p, c). put_file p c) ws fs"

definition write_calls :: "(path \<times> string) list \<Rightarrow> action list" where
  "write_calls ws = map (\<lambda>(p, c). CallWriteFile p c) ws"

text \<open>
  Between two states only files inside a directory were written: the rest of the
  file system, the user interface and the goroutines are the same, and the history
  has grown by calls of \<^verbatim>\<open>os.WriteFile\<close>.
\<close>

definition wrote :: "path \<Rightarrow> miko \<Rightarrow> miko \<Rightarrow> bool" where
  "wrote dir s t =
     (same_ui s t \<and> runs t = runs s \<and> dirs t = dirs s \<and>
      outside dir (files t) = outside dir (files s) \<and>
      (\<exists>ws. history t = history s @ write_calls ws))"

text \<open>The runs for which \<^verbatim>\<open>cmd.Wait\<close> was called, in the order of the calls.\<close>

fun waits :: "action list \<Rightarrow> nat list" where
  "waits [] = []"
| "waits (CallWait i # as) = i # waits as"
| "waits (a # as) = waits as"

text \<open>
  Every \<^verbatim>\<open>cmd.Wait\<close> of a run, in a list of actions that follows the actions \<open>seen\<close>,
  comes after both done signals of that run.
\<close>

fun gated :: "action list \<Rightarrow> action list \<Rightarrow> bool" where
  "gated seen [] = True"
| "gated seen (CallWait i # as) =
     (StdoutDone i \<in> set seen \<and> StderrDone i \<in> set seen \<and> gated (seen @ [CallWait i]) as)"
| "gated seen (a # as) = gated (seen @ [a]) as"

text \<open>
  The goroutines of run \<open>i\<close> agree with the history \<open>h\<close>: a context that is cancelled
  has its done signal in the history, and the reaping goroutine is past a receive
  only when the context it received from is cancelled.
\<close>

definition run_ok :: "action list \<Rightarrow> nat \<Rightarrow> run \<Rightarrow> bool" where
  "run_ok h i r =
     ((stdout_done r \<longrightarrow> StdoutDone i \<in> set h) \<and>
      (stderr_done r \<longrightarrow> StderrDone i \<in> set h) \<and>
      (reaper r = Some AwaitStderr \<longrightarrow> stdout_done r) \<and>
      (reaper r = Some Ready \<or> reaper r = Some Finished \<longrightarrow> stdout_done r \<and> stderr_done r))"

definition barrier :: "miko \<Rightarrow> bool" where
  "barrier s =
     ((\<forall>i < length (runs s). run_ok (history s) i (runs s ! i)) \<and> gated [] (history s))"

section \<open>Properties\<close>

subsection \<open>The stages of \<^verbatim>\<open>mito\<close> in closed form\<close>

lemma write_data_eq:
  "write_data os dir args s =
     (if data s = [] then (Inr args, s)
      else ((case write_error (os_WriteFile os (filepath_Join dir ''data.json'')) of
               Some err \<Rightarrow> Inl err
             | None \<Rightarrow> Inr (args @ [''-data'', filepath_Join dir ''data.json''])),
            snd (WriteFile os (filepath_Join dir ''data.json'') (data s) s)))"
  by (simp add: write_data_def WriteFile_def Let_def split: option.splits)

lemma write_cfg_eq:
  "write_cfg os dir args s =
     (if cfg s = [] then (Inr args, s)
      else ((case write_error (os_WriteFile os (filepath_Join dir ''cfg.yml'')) of
               Some err \<Rightarrow> Inl err
             | None \<Rightarrow> Inr (args @ [''-cfg'', filepath_Join dir ''cfg.yml''])),
            snd (WriteFile os (filepath_Join dir ''cfg.yml'') (cfg s) s)))"
  by (simp add: write_cfg_def WriteFile_def Let_def split: option.splits)

lemma write_src_eq:
  "write_src os dir args s =
     ((case write_error (os_WriteFile os (filepath_Join dir ''src.cel'')) of
         Some err \<Rightarrow> Inl err
       | None \<Rightarrow> Inr (args @ [filepath_Join dir ''src.cel''])),
      snd (WriteFile os (filepath_Join dir ''src.cel'') (src s) s))"
  by (simp add: write_src_def WriteFile_def Let_def split: option.splits)

lemma mito_eq:
  "mito keep os s =
     (if src s = [] then ((None, None), s)
      else
       (case os_MkdirTemp os of
          Inl err \<Rightarrow> ((None, Some err), snd (MkdirTemp os s))
        | Inr dir \<Rightarrow>
           (case prepare os dir (snd (MkdirTemp os s)) of
              (Inl err, s') \<Rightarrow> ((None, Some err), RemoveAll dir s')
            | (Inr args, s') \<Rightarrow> spawn keep os dir args s')))"
  by (simp add: mito_def prepare_def MkdirTemp_def deferred_def Let_def
      split: prod.splits sum.splits)

lemma spawn_eq:
  "spawn keep os dir args s =
     (case cmd_StdoutPipe os of
        Some err \<Rightarrow>
          ((None, Some err),
           s\<lparr>history := history s @ [CallCommand ''mito'' args, CallStdoutPipe]\<rparr>)
      | None \<Rightarrow>
     (case cmd_StderrPipe os of
        Some err \<Rightarrow>
          ((None, Some err),
           s\<lparr>history := history s @
                 [CallCommand ''mito'' args, CallStdoutPipe, CallStderrPipe]\<rparr>)
      | None \<Rightarrow>
     (case cmd_Start os of
        Inl err \<Rightarrow>
          ((None, Some err),
           s\<lparr>history := history s @
                 [CallCommand ''mito'' args, CallStdoutPipe, CallStderrPipe, CallStart],
             runs := runs s @ [new_run dir keep]\<rparr>)
      | Inr p \<Rightarrow>
          ((Some p, None),
           s\<lparr>history := history s @
                 [CallCommand ''mito'' args, CallStdoutPipe, CallStderrPipe, CallStart],
             runs := runs s @
                 [(new_run dir keep)\<lparr>run_pid := Some p, reaper := Some AwaitStdout\<rparr>]\<rparr>))))"
  by (simp add: spawn_def Command_def StdoutPipe_def StderrPipe_def Start_def go_readers_def
      go_reaper_def deferred_def act_def new_run_def Let_def split: option.splits sum.splits)

lemma quiet_refl: "quiet s s"
  by (simp add: quiet_def same_ui_def)

lemma quiet_trans: "quiet a b \<Longrightarrow> quiet b c \<Longrightarrow> quiet a c"
  by (auto simp: quiet_def same_ui_def)

lemma quiet_WriteFile: "quiet s (snd (WriteFile os p c s))"
  by (simp add: quiet_def same_ui_def WriteFile_def act_def)

lemma quiet_MkdirTemp: "quiet s (snd (MkdirTemp os s))"
  by (simp add: quiet_def same_ui_def MkdirTemp_def act_def)

lemma quiet_RemoveAll: "quiet s (RemoveAll dir s)"
  by (simp add: quiet_def same_ui_def RemoveAll_def act_def)

lemma quiet_write_data: "quiet s (snd (write_data os dir args s))"
  by (simp add: write_data_eq quiet_WriteFile quiet_refl)

lemma quiet_write_cfg: "quiet s (snd (write_cfg os dir args s))"
  by (simp add: write_cfg_eq quiet_WriteFile quiet_refl)

lemma quiet_write_src: "quiet s (snd (write_src os dir args s))"
  by (simp add: write_src_eq quiet_WriteFile)

lemma quiet_prepare: "quiet s (snd (prepare os dir s))"
proof -
  obtain r1 s1 where d: "write_data os dir [] s = (r1, s1)"
    by (cases "write_data os dir [] s")
  have q1: "quiet s s1" using quiet_write_data [of s os dir "[]"] d by simp
  show ?thesis
  proof (cases r1)
    case (Inl err)
    with d q1 show ?thesis by (simp add: prepare_def)
  next
    case (Inr args)
    obtain r2 s2 where c: "write_cfg os dir args s1 = (r2, s2)"
      by (cases "write_cfg os dir args s1")
    have q2: "quiet s s2"
      using quiet_trans [OF q1 quiet_write_cfg [of s1 os dir args]] c by simp
    show ?thesis
    proof (cases r2)
      case (Inl err)
      with d c Inr q2 show ?thesis by (simp add: prepare_def)
    next
      case (Inr args2)
      have "quiet s (snd (write_src os dir (option_flags s2 args2) s2))"
        using q2 quiet_write_src by (rule quiet_trans)
      with d c \<open>r1 = Inr args\<close> Inr show ?thesis by (simp add: prepare_def)
    qed
  qed
qed

lemma calm_refl: "calm s s"
  by (simp add: calm_def same_ui_def)

lemma calm_trans: "calm a b \<Longrightarrow> calm b c \<Longrightarrow> calm a c"
  by (auto simp: calm_def same_ui_def)

lemma quiet_calm: "quiet s t \<Longrightarrow> calm s t"
  by (simp add: quiet_def calm_def)

lemma calm_spawn: "calm s (snd (spawn keep os dir args s))"
  by (simp add: spawn_eq calm_def same_ui_def split: option.splits sum.splits)

lemma quiet_mkdir_prepare: "quiet s (snd (prepare os dir (snd (MkdirTemp os s))))"
  by (rule quiet_trans [OF quiet_MkdirTemp quiet_prepare])

lemma quiet_mkdir_prepare_remove:
  "quiet s (RemoveAll dir (snd (prepare os dir (snd (MkdirTemp os s)))))"
  by (rule quiet_trans [OF quiet_mkdir_prepare quiet_RemoveAll])

lemma calm_mito: "calm s (snd (mito keep os s))"
proof -
  have d: "calm s (snd (spawn keep os dir args (snd (prepare os dir (snd (MkdirTemp os s))))))"
    for dir args
    by (rule calm_trans [OF quiet_calm [OF quiet_mkdir_prepare] calm_spawn])
  show ?thesis
    using d quiet_calm [OF quiet_MkdirTemp] quiet_calm [OF quiet_mkdir_prepare_remove]
    by (simp add: mito_eq split_beta calm_refl split: sum.splits)
qed

lemma spawn_runs:
  "\<exists>rs. runs (snd (spawn keep os dir args s)) = runs s @ rs \<and>
        (\<forall>r \<in> set rs. run_pid r = fst (fst (spawn keep os dir args s)))"
  by (simp add: spawn_eq new_run_def split: option.splits sum.splits)

lemma mito_runs:
  "\<exists>rs. runs (snd (mito keep os s)) = runs s @ rs \<and>
        (\<forall>r \<in> set rs. run_pid r = fst (fst (mito keep os s)))"
proof -
  have a: "runs (snd (MkdirTemp os s)) = runs s"
    using quiet_MkdirTemp [of s os] by (simp add: quiet_def)
  have b: "runs (snd (prepare os dir (snd (MkdirTemp os s)))) = runs s" for dir
    using quiet_mkdir_prepare [of s os dir] by (simp add: quiet_def)
  have c: "runs (RemoveAll dir (snd (prepare os dir (snd (MkdirTemp os s))))) = runs s" for dir
    using quiet_mkdir_prepare_remove [of s dir os] by (simp add: quiet_def)
  have d: "\<exists>rs. runs (snd (spawn keep os dir args (snd (prepare os dir (snd (MkdirTemp os s)))))) =
             runs s @ rs \<and>
           (\<forall>r \<in> set rs. run_pid r =
              fst (fst (spawn keep os dir args (snd (prepare os dir (snd (MkdirTemp os s)))))))"
    for dir args
    using spawn_runs [of keep os dir args "snd (prepare os dir (snd (MkdirTemp os s)))"]
    by (simp add: b)
  show ?thesis
    using a c d by (simp add: mito_eq split_beta split: sum.splits)
qed

subsection \<open>The button commands in closed form\<close>

lemma printError_same:
  "ps (printError err s) = ps s" "src (printError err s) = src s"
  "runs (printError err s) = runs s" "history (printError err s) = history s"
  "files (printError err s) = files s" "dirs (printError err s) = dirs s"
  "results (printError err s) = results s" "logged (printError err s) = logged s"
  by (simp_all add: printError_def split: option.splits)

lemma cancel_Command_eq:
  "cancel_Command kres s =
     (case ps s of None \<Rightarrow> s | Some p \<Rightarrow> printError kres (act (CallKill p) s))"
  by (simp add: cancel_Command_def Kill_def split: option.splits)

lemma run_Command_eq:
  "run_Command kres os s =
     printError (snd (fst (mito False os (cancel_Command kres s))))
       ((snd (mito False os (cancel_Command kres s)))
          \<lparr>ps := fst (fst (mito False os (cancel_Command kres s)))\<rparr>)"
  by (simp add: run_Command_def cancel_Command_def Let_def split_beta split: option.splits)

lemma mito_empty_src_aux: "src s = [] \<Longrightarrow> mito keep os s = ((None, None), s)"
  by (simp add: mito_def)

lemmas model_defs =
  newMiko_def all_ok_def act_def filepath_Join_def put_file_def MkdirTemp_def write_error_def
  written_def WriteFile_def RemoveAll_def Command_def StdoutPipe_def StderrPipe_def Start_def
  Kill_def deferred_def go_readers_def go_reaper_def write_data_def write_cfg_def
  option_flags_def write_src_def spawn_def mito_def printError_def run_Command_def
  cancel_Command_def clear_Command_def stdout_pass_def stderr_pass_def end_of_stream_def
  ticker_def send_def cancel_ctx_def finalize_def set_reaper_def inside_def Let_def

section \<open>The claims\<close>

text \<open>
  C6. Starting a run with empty program text returns a nil handle and no error and has
  no side effect: the state after \<^verbatim>\<open>mito\<close> is the state before it, so no directory
  is created, no file written, no process spawned, no goroutine started and nothing
  sent, displayed or logged.
\<close>
theorem mito_empty_program:
  "src s = [] \<Longrightarrow> mito keep os s = ((None, None), s)"
  by (simp add: mito_def)

theorem mito_empty_program_witness:
  "src (newMiko [] []) = [] \<and>
   mito False (all_ok ''/tmp/miko-1'' 7) (newMiko [] []) = ((None, None), newMiko [] [])"
  using mito_empty_program [of "newMiko [] []" False "all_ok ''/tmp/miko-1'' 7"]
  by (simp add: newMiko_def)

text \<open>
  C10. A run request with empty program text while a process is in the slot still
  kills that process and stores nil in the slot; a cancel request after it does
  nothing. The slot always receives the first result of \<^verbatim>\<open>mito\<close>, nil included.
\<close>
theorem run_empty_program_clears_slot:
  assumes "ps s = Some p" and "src s = []"
  shows "run_Command kres os s = (printError kres (act (CallKill p) s))\<lparr>ps := None\<rparr> \<and>
         history (run_Command kres os s) = history s @ [CallKill p] \<and>
         ps (run_Command kres os s) = None \<and>
         cancel_Command kres' (run_Command kres os s) = run_Command kres os s \<and>
         (\<forall>t. ps (run_Command kres os t) = fst (fst (mito False os (cancel_Command kres t))))"
proof -
  have c: "cancel_Command kres s = printError kres (act (CallKill p) s)"
    using assms by (simp add: cancel_Command_eq)
  have e: "src (printError kres (act (CallKill p) s)) = []"
    using assms by (simp add: printError_same act_def)
  have m: "mito False os (printError kres (act (CallKill p) s)) =
             ((None, None), printError kres (act (CallKill p) s))"
    by (rule mito_empty_src_aux [OF e])
  have r: "run_Command kres os s = (printError kres (act (CallKill p) s))\<lparr>ps := None\<rparr>"
    by (simp only: run_Command_eq c m fst_conv snd_conv) (simp add: printError_def)
  have h: "history (run_Command kres os s) = history s @ [CallKill p]"
    by (simp add: r printError_same act_def)
  have n: "ps (run_Command kres os s) = None"
    by (simp add: r)
  have k: "cancel_Command kres' (run_Command kres os s) = run_Command kres os s"
    by (simp add: cancel_Command_eq n)
  have g: "\<forall>t. ps (run_Command kres os t) = fst (fst (mito False os (cancel_Command kres t)))"
    by (simp add: run_Command_eq printError_same)
  from r h n k g show ?thesis by blast
qed

theorem run_empty_program_clears_slot_witness:
  "ps ((newMiko [] [])\<lparr>ps := Some 7\<rparr>) = Some 7 \<and>
   src ((newMiko [] [])\<lparr>ps := Some 7\<rparr>) = [] \<and>
   history (run_Command None (all_ok ''/tmp/miko-1'' 8) ((newMiko [] [])\<lparr>ps := Some 7\<rparr>)) =
     [CallKill 7] \<and>
   ps (run_Command None (all_ok ''/tmp/miko-1'' 8) ((newMiko [] [])\<lparr>ps := Some 7\<rparr>)) = None \<and>
   cancel_Command None
     (run_Command None (all_ok ''/tmp/miko-1'' 8) ((newMiko [] [])\<lparr>ps := Some 7\<rparr>)) =
     run_Command None (all_ok ''/tmp/miko-1'' 8) ((newMiko [] [])\<lparr>ps := Some 7\<rparr>)"
  using run_empty_program_clears_slot
    [of "(newMiko [] [])\<lparr>ps := Some 7\<rparr>" 7 None "all_ok ''/tmp/miko-1'' 8" None]
  by (simp add: newMiko_def printError_def act_def cancel_Command_eq)

subsection \<open>The stream readers\<close>

lemma stdout_reader_append:
  "Return \<notin> set (stdout_reader mi pre) \<Longrightarrow>
   stdout_reader mi (pre @ rs) = stdout_reader mi pre @ stdout_reader mi rs"
  by (induction pre) (auto split: if_splits)

lemma stderr_reader_append:
  "Return \<notin> set (stderr_reader pre) \<Longrightarrow>
   stderr_reader (pre @ rs) = stderr_reader pre @ stderr_reader rs"
  by (induction pre) (auto split: if_splits)

lemma stdout_pass_error:
  "stdout_pass mi (DecodeError err) =
     (if end_of_stream err then [Return] else [Println (Error err), Return])"
  by (simp add: stdout_pass_def)

lemma stderr_pass_end:
  "stderr_pass (ScanEnd eo) =
     (case eo of None \<Rightarrow> [Return]
      | Some err \<Rightarrow> if end_of_stream err then [Return] else [Println (Error err), Return])"
  by (simp add: stderr_pass_def split: option.splits)

lemma stdout_reader_error:
  "stdout_reader mi (DecodeError err # rest) = stdout_pass mi (DecodeError err)"
  by (simp add: stdout_pass_error)

lemma stderr_reader_end:
  "stderr_reader (ScanEnd eo # rest) = stderr_pass (ScanEnd eo)"
  by (simp add: stderr_pass_end split: option.splits)

lemma stdout_reader_decoded:
  "\<forall>v \<in> set vs. mi v = Inr (pp v) \<Longrightarrow>
   stdout_reader mi (map Decoded vs) =
     map (\<lambda>v. Send \<lparr>text_data = pp v, text_tag = ''output''\<rparr>) vs"
  by (induction vs) (auto simp: stdout_pass_def)

lemma results_perform1: "results (perform st i e s) = results s @ sends [e]"
  by (cases e; cases st) (simp_all add: send_def ticker_def cancel_ctx_def act_def)

lemma sends_Cons: "sends (e # es) = sends [e] @ sends es"
  by (cases e) simp_all

lemma results_perform:
  "results (fold (perform st i) effs s) = results s @ sends effs"
proof (induction effs arbitrary: s)
  case Nil
  show ?case by simp
next
  case (Cons e effs)
  have "results (fold (perform st i) (e # effs) s) =
          (results s @ sends [e]) @ sends effs"
    by (simp only: fold_Cons comp_apply Cons.IH results_perform1)
  then show ?case
    by (simp only: sends_Cons [of e effs] append_assoc)
qed

lemma sends_append: "sends (es @ fs) = sends es @ sends fs"
  by (induction es rule: sends.induct) simp_all

lemma sends_map_Send: "sends (map (\<lambda>v. Send (f v)) vs) = map f vs"
  by (induction vs) simp_all

lemma reader_end_effects:
  assumes "Return \<notin> set (stdout_reader mi pre)" and "Return \<notin> set (stderr_reader pre')"
  shows
    "stdout_reader mi (pre @ DecodeError err # rest) =
       stdout_reader mi pre @
         (if end_of_stream err then [Return] else [Println (Error err), Return]) \<and>
     stderr_reader (pre' @ ScanEnd (Some err) # rest') =
       stderr_reader pre' @
         (if end_of_stream err then [Return] else [Println (Error err), Return]) \<and>
     stderr_reader (pre' @ ScanEnd None # rest') = stderr_reader pre' @ [Return] \<and>
     (end_of_stream err \<longleftrightarrow>
        err = EOF \<or> (\<exists>op path. errors_As err = Some (op, path, ErrClosed)))"
proof -
  have a: "stdout_reader mi (pre @ DecodeError err # rest) =
       stdout_reader mi pre @
         (if end_of_stream err then [Return] else [Println (Error err), Return])"
    using stdout_reader_append [OF assms(1), of "DecodeError err # rest"]
    by (simp only: stdout_reader_error stdout_pass_error)
  have b: "stderr_reader (pre' @ ScanEnd eo # rest') =
       stderr_reader pre' @ stderr_pass (ScanEnd eo)" for eo
    using stderr_reader_append [OF assms(2), of "ScanEnd eo # rest'"]
    by (simp only: stderr_reader_end)
  have c: "end_of_stream err \<longleftrightarrow>
        err = EOF \<or> (\<exists>op path. errors_As err = Some (op, path, ErrClosed))"
    by (auto simp: end_of_stream_def split: option.splits)
  from a b [of "Some err"] b [of None] c show ?thesis
    by (simp add: stderr_pass_end)
qed

lemma runs_length_perform: "length (runs (perform st i e s)) = length (runs s)"
  by (cases e; cases st) (simp_all add: send_def ticker_def cancel_ctx_def act_def)

lemma runs_length_fold_perform: "length (runs (fold (perform st i) es s)) = length (runs s)"
  by (induction es arbitrary: s) (simp_all add: runs_length_perform)

lemma done_kept_perform:
  assumes "j < length (runs s)"
  shows "(stdout_done (runs s ! j) \<longrightarrow> stdout_done (runs (perform st i e s) ! j)) \<and>
         (stderr_done (runs s ! j) \<longrightarrow> stderr_done (runs (perform st i e s) ! j)) \<and>
         set (history s) \<subseteq> set (history (perform st i e s))"
  using assms
  by (cases e; cases st; cases "i = j")
     (auto simp: send_def ticker_def cancel_ctx_def act_def)

lemma done_kept_fold_perform:
  assumes "j < length (runs s)"
  shows "(stdout_done (runs s ! j) \<longrightarrow> stdout_done (runs (fold (perform st i) es s) ! j)) \<and>
         (stderr_done (runs s ! j) \<longrightarrow> stderr_done (runs (fold (perform st i) es s) ! j)) \<and>
         set (history s) \<subseteq> set (history (fold (perform st i) es s))"
  using assms
proof (induction es arbitrary: s)
  case Nil
  show ?case by simp
next
  case (Cons e es)
  have l: "j < length (runs (perform st i e s))"
    using Cons.prems by (simp add: runs_length_perform)
  show ?case
    using Cons.IH [OF l] done_kept_perform [OF Cons.prems, of st i e]
    by (simp only: fold_Cons comp_apply) blast
qed

lemma Return_fires_stdout:
  assumes "i < length (runs s)"
  shows "stdout_done (runs (perform Stdout i Return s) ! i) \<and>
         StdoutDone i \<in> set (history (perform Stdout i Return s))"
  using assms by (simp add: cancel_ctx_def act_def)

lemma Return_fires_stderr:
  assumes "i < length (runs s)"
  shows "stderr_done (runs (perform Stderr i Return s) ! i) \<and>
         StderrDone i \<in> set (history (perform Stderr i Return s))"
  using assms by (simp add: cancel_ctx_def act_def)

lemma stdout_done_after_Return:
  assumes "Return \<in> set es" and "i < length (runs s)"
  shows "stdout_done (runs (fold (perform Stdout i) es s) ! i) \<and>
         StdoutDone i \<in> set (history (fold (perform Stdout i) es s))"
  using assms
proof (induction es arbitrary: s)
  case Nil
  then show ?case by simp
next
  case (Cons e es)
  have l: "i < length (runs (perform Stdout i e s))"
    using Cons.prems(2) by (simp add: runs_length_perform)
  show ?case
  proof (cases "e = Return")
    case True
    from Return_fires_stdout [OF Cons.prems(2)] done_kept_fold_perform [OF l, of Stdout i es] True
    show ?thesis by (simp only: fold_Cons comp_apply) blast
  next
    case False
    with Cons.prems(1) have "Return \<in> set es" by simp
    from Cons.IH [OF this l] show ?thesis by (simp only: fold_Cons comp_apply)
  qed
qed

lemma stderr_done_after_Return:
  assumes "Return \<in> set es" and "i < length (runs s)"
  shows "stderr_done (runs (fold (perform Stderr i) es s) ! i) \<and>
         StderrDone i \<in> set (history (fold (perform Stderr i) es s))"
  using assms
proof (induction es arbitrary: s)
  case Nil
  then show ?case by simp
next
  case (Cons e es)
  have l: "i < length (runs (perform Stderr i e s))"
    using Cons.prems(2) by (simp add: runs_length_perform)
  show ?case
  proof (cases "e = Return")
    case True
    from Return_fires_stderr [OF Cons.prems(2)] done_kept_fold_perform [OF l, of Stderr i es] True
    show ?thesis by (simp only: fold_Cons comp_apply) blast
  next
    case False
    with Cons.prems(1) have "Return \<in> set es" by simp
    from Cons.IH [OF this l] show ?thesis by (simp only: fold_Cons comp_apply)
  qed
qed

lemma logged_perform1: "logged (perform st i e s) = logged s @ prints [e]"
  by (cases e; cases st) (simp_all add: send_def ticker_def cancel_ctx_def act_def)

lemma prints_Cons: "prints (e # es) = prints [e] @ prints es"
  by (cases e) simp_all

lemma logged_perform:
  "logged (fold (perform st i) effs s) = logged s @ prints effs"
proof (induction effs arbitrary: s)
  case Nil
  show ?case by simp
next
  case (Cons e effs)
  have "logged (fold (perform st i) (e # effs) s) = (logged s @ prints [e]) @ prints effs"
    by (simp only: fold_Cons comp_apply Cons.IH logged_perform1)
  then show ?case
    by (simp only: prints_Cons [of e effs] append_assoc)
qed

lemma prints_append: "prints (es @ fs) = prints es @ prints fs"
  by (induction es rule: prints.induct) simp_all

lemma stdout_pass_prints:
  "Return \<notin> set (stdout_pass mi r) \<Longrightarrow> prints (stdout_pass mi r) = []"
  by (auto simp: stdout_pass_def split: decode_result.splits sum.splits if_splits)

lemma stderr_pass_prints:
  "Return \<notin> set (stderr_pass r) \<Longrightarrow> prints (stderr_pass r) = []"
  by (auto simp: stderr_pass_def split: scan_result.splits option.splits if_splits)

lemma stdout_reader_prints:
  "Return \<notin> set (stdout_reader mi pre) \<Longrightarrow> prints (stdout_reader mi pre) = []"
  by (induction pre) (auto simp: prints_append stdout_pass_prints split: if_splits)

lemma stderr_reader_prints:
  "Return \<notin> set (stderr_reader pre) \<Longrightarrow> prints (stderr_reader pre) = []"
  by (induction pre) (auto simp: prints_append stderr_pass_prints split: if_splits)

text \<open>
  C5. In both stream readers a read result that is exactly \<^verbatim>\<open>io.EOF\<close>, or a path
  error whose cause is \<^verbatim>\<open>fs.ErrClosed\<close>, ends the loop with nothing logged. Any other
  error is logged, once, and ends the loop too. Either way the reader returns and its
  deferred cancel function fires the done signal of its stream: in the state after
  the reader's effects the context of that stream is cancelled, and no further pass
  of that reader is possible, so whatever the stream would have given after the error
  is never read.
\<close>
theorem stream_end_classification:
  assumes "Return \<notin> set (stdout_reader mi pre)" and "Return \<notin> set (stderr_reader pre')"
    and "i < length (runs s)"
  shows
    "stdout_reader mi (pre @ DecodeError err # rest) =
       stdout_reader mi pre @
         (if end_of_stream err then [Return] else [Println (Error err), Return]) \<and>
     stderr_reader (pre' @ ScanEnd (Some err) # rest') =
       stderr_reader pre' @
         (if end_of_stream err then [Return] else [Println (Error err), Return]) \<and>
     stderr_reader (pre' @ ScanEnd None # rest') = stderr_reader pre' @ [Return] \<and>
     (end_of_stream err \<longleftrightarrow>
        err = EOF \<or> (\<exists>op path. errors_As err = Some (op, path, ErrClosed))) \<and>
     stdout_done
       (runs (fold (perform Stdout i) (stdout_reader mi (pre @ DecodeError err # rest)) s) ! i) \<and>
     StdoutDone i \<in> set (history
       (fold (perform Stdout i) (stdout_reader mi (pre @ DecodeError err # rest)) s)) \<and>
     logged (fold (perform Stdout i) (stdout_reader mi (pre @ DecodeError err # rest)) s) =
       logged s @ (if end_of_stream err then [] else [Error err]) \<and>
     step mi (fold (perform Stdout i) (stdout_reader mi (pre @ DecodeError err # rest)) s)
       (StdoutPass i r) = None \<and>
     stderr_done
       (runs (fold (perform Stderr i) (stderr_reader (pre' @ ScanEnd eo # rest')) s) ! i) \<and>
     StderrDone i \<in> set (history
       (fold (perform Stderr i) (stderr_reader (pre' @ ScanEnd eo # rest')) s)) \<and>
     logged (fold (perform Stderr i) (stderr_reader (pre' @ ScanEnd eo # rest')) s) =
       logged s @
         (case eo of None \<Rightarrow> []
          | Some e \<Rightarrow> if end_of_stream e then [] else [Error e]) \<and>
     step mi (fold (perform Stderr i) (stderr_reader (pre' @ ScanEnd eo # rest')) s)
       (StderrPass i r') = None"
proof -
  let ?out = "stdout_reader mi (pre @ DecodeError err # rest)"
  let ?err = "stderr_reader (pre' @ ScanEnd eo # rest')"
  let ?t = "fold (perform Stdout i) ?out s"
  let ?u = "fold (perform Stderr i) ?err s"
  note eff = reader_end_effects [OF assms(1,2), of err rest rest']
  have o: "?out = stdout_reader mi pre @
         (if end_of_stream err then [Return] else [Println (Error err), Return])"
    using eff by blast
  have e: "?err = stderr_reader pre' @ stderr_pass (ScanEnd eo)"
    using stderr_reader_append [OF assms(2), of "ScanEnd eo # rest'"]
    by (simp only: stderr_reader_end)
  have ro: "Return \<in> set ?out" by (simp add: o)
  have re: "Return \<in> set ?err" by (simp add: e stderr_pass_end split: option.splits)
  have d1: "stdout_done (runs ?t ! i) \<and> StdoutDone i \<in> set (history ?t)"
    using ro assms(3) by (rule stdout_done_after_Return)
  have d2: "stderr_done (runs ?u ! i) \<and> StderrDone i \<in> set (history ?u)"
    using re assms(3) by (rule stderr_done_after_Return)
  have l1: "logged ?t = logged s @ (if end_of_stream err then [] else [Error err])"
    by (simp add: logged_perform o prints_append stdout_reader_prints [OF assms(1)])
  have l2: "logged ?u = logged s @
         (case eo of None \<Rightarrow> [] | Some e \<Rightarrow> if end_of_stream e then [] else [Error e])"
    by (simp add: logged_perform e prints_append stderr_reader_prints [OF assms(2)]
        stderr_pass_end split: option.splits)
  have s1: "step mi ?t (StdoutPass i r) = None"
    using d1 by simp
  have s2: "step mi ?u (StderrPass i r') = None"
    using d2 by simp
  from eff d1 d2 l1 l2 s1 s2 show ?thesis by blast
qed

theorem stream_end_classification_witness:
  "Return \<notin> set (stdout_reader (\<lambda>n::nat. Inr ''1'') [Decoded 0]) \<and>
   Return \<notin> set (stderr_reader [Token ''warn'']) \<and>
   (0::nat) < length (runs (snd (mito False (all_ok ''/tmp/miko-1'' 7)
                                 ((newMiko [] [])\<lparr>src := ''1''\<rparr>)))) \<and>
   stdout_reader (\<lambda>n::nat. Inr ''1'')
     ([Decoded 0] @ DecodeError (PathError ''read'' ''|0'' ErrClosed) # [Decoded 1]) =
     [Send \<lparr>text_data = ''1'', text_tag = ''output''\<rparr>, Return] \<and>
   stderr_reader ([Token ''warn''] @ ScanEnd (Some (PathError ''read'' ''|0'' ErrClosed)) # [Token ''x'']) =
     [Send \<lparr>text_data = ''warn'', text_tag = ''error''\<rparr>, Return] \<and>
   stdout_done
     (runs (fold (perform Stdout 0)
        (stdout_reader (\<lambda>n::nat. Inr ''1'')
           ([Decoded 0] @ DecodeError (PathError ''read'' ''|0'' ErrClosed) # [Decoded 1]))
        (snd (mito False (all_ok ''/tmp/miko-1'' 7) ((newMiko [] [])\<lparr>src := ''1''\<rparr>)))) ! 0) \<and>
   logged (fold (perform Stdout 0)
        (stdout_reader (\<lambda>n::nat. Inr ''1'')
           ([Decoded 0] @ DecodeError (PathError ''read'' ''|0'' ErrClosed) # [Decoded 1]))
        (snd (mito False (all_ok ''/tmp/miko-1'' 7) ((newMiko [] [])\<lparr>src := ''1''\<rparr>)))) = [] \<and>
   stderr_done
     (runs (fold (perform Stderr 0)
        (stderr_reader ([Token ''warn''] @ ScanEnd (Some (Other ''token too long'')) # [Token ''x'']))
        (snd (mito False (all_ok ''/tmp/miko-1'' 7) ((newMiko [] [])\<lparr>src := ''1''\<rparr>)))) ! 0) \<and>
   logged (fold (perform Stderr 0)
        (stderr_reader ([Token ''warn''] @ ScanEnd (Some (Other ''token too long'')) # [Token ''x'']))
        (snd (mito False (all_ok ''/tmp/miko-1'' 7) ((newMiko [] [])\<lparr>src := ''1''\<rparr>)))) =
     [''token too long'']"
  using stream_end_classification
    [where mi = "\<lambda>n::nat. Inr ''1''" and pre = "[Decoded 0]" and pre' = "[Token ''warn'']"
       and err = "PathError ''read'' ''|0'' ErrClosed" and rest = "[Decoded 1]"
       and rest' = "[Token ''x'']" and i = 0 and eo = "Some (Other ''token too long'')"
       and s = "snd (mito False (all_ok ''/tmp/miko-1'' 7) ((newMiko [] [])\<lparr>src := ''1''\<rparr>))"]
  by (simp add: model_defs)

text \<open>
  C4. Every value that \<^verbatim>\<open>Decode\<close> returns is marshalled with indentation and sent
  as one value tagged \<open>output\<close>, in the order of arrival, and these are all the values
  the reader sends. The marshalling of a value that was decoded from JSON succeeds,
  which is the hypothesis.
\<close>
theorem stdout_records_in_order:
  assumes "\<forall>v \<in> set vs. mi v = Inr (pp v)"
  shows
    "stdout_reader mi (map Decoded vs) =
       map (\<lambda>v. Send \<lparr>text_data = pp v, text_tag = ''output''\<rparr>) vs \<and>
     stdout_reader mi (map Decoded vs @ DecodeError err # rest) =
       map (\<lambda>v. Send \<lparr>text_data = pp v, text_tag = ''output''\<rparr>) vs @
         (if end_of_stream err then [Return] else [Println (Error err), Return]) \<and>
     results (fold (perform Stdout i) (stdout_reader mi (map Decoded vs @ DecodeError err # rest)) s) =
       results s @ map (\<lambda>v. \<lparr>text_data = pp v, text_tag = ''output''\<rparr>) vs"
proof -
  let ?out = "map (\<lambda>v. Send \<lparr>text_data = pp v, text_tag = ''output''\<rparr>) vs"
  have a: "stdout_reader mi (map Decoded vs) = ?out"
    using assms by (rule stdout_reader_decoded)
  have n: "Return \<notin> set (stdout_reader mi (map Decoded vs))"
    by (auto simp: a)
  have b: "stdout_reader mi (map Decoded vs @ DecodeError err # rest) =
       ?out @ (if end_of_stream err then [Return] else [Println (Error err), Return])"
    using stdout_reader_append [OF n, of "DecodeError err # rest"]
    by (simp only: stdout_reader_error stdout_pass_error a)
  have c: "sends (?out @ (if end_of_stream err then [Return] else [Println (Error err), Return])) =
       map (\<lambda>v. \<lparr>text_data = pp v, text_tag = ''output''\<rparr>) vs"
    by (simp add: sends_append sends_map_Send)
  have d: "results (fold (perform Stdout i)
             (stdout_reader mi (map Decoded vs @ DecodeError err # rest)) s) =
       results s @ map (\<lambda>v. \<lparr>text_data = pp v, text_tag = ''output''\<rparr>) vs"
    by (simp only: results_perform b c)
  from a b d show ?thesis by blast
qed

theorem stdout_records_in_order_witness:
  \<open>stdout_reader (\<lambda>v. Inr (indented v))
     (map Decoded [''{"a":1}'', ''{"b":2}''] @ DecodeError EOF # []) =
     [Send \<lparr>text_data = ''{'' @ [CHR 0x0A, CHR 0x09] @ ''"a": 1'' @ [CHR 0x0A] @ ''}'',
            text_tag = ''output''\<rparr>,
      Send \<lparr>text_data = ''{'' @ [CHR 0x0A, CHR 0x09] @ ''"b": 2'' @ [CHR 0x0A] @ ''}'',
            text_tag = ''output''\<rparr>,
      Return] \<and>
   results (fold (perform Stdout 0)
     (stdout_reader (\<lambda>v. Inr (indented v))
        (map Decoded [''{"a":1}'', ''{"b":2}''] @ DecodeError EOF # [])) (newMiko [] [])) =
     [\<lparr>text_data = ''{'' @ [CHR 0x0A, CHR 0x09] @ ''"a": 1'' @ [CHR 0x0A] @ ''}'',
       text_tag = ''output''\<rparr>,
      \<lparr>text_data = ''{'' @ [CHR 0x0A, CHR 0x09] @ ''"b": 2'' @ [CHR 0x0A] @ ''}'',
       text_tag = ''output''\<rparr>]\<close>
  using stdout_records_in_order
    [where vs = \<open>[''{"a":1}'', ''{"b":2}'']\<close> and mi = "\<lambda>v. Inr (indented v)" and pp = indented
       and err = EOF and rest = "[]" and i = 0 and s = "newMiko [] []"]
  by (simp add: indented_def end_of_stream_def newMiko_def stdout_pass_def send_def ticker_def
      cancel_ctx_def act_def)

subsection \<open>The slot and the processes\<close>

lemma pids_of_append: "pids_of (xs @ ys) = pids_of xs @ pids_of ys"
  by (induction xs) (simp_all split: option.splits)

lemma pids_of_update:
  "run_pid r = run_pid (xs ! i) \<Longrightarrow> pids_of (xs[i := r]) = pids_of xs"
proof (induction xs arbitrary: i)
  case Nil
  show ?case by simp
next
  case (Cons x xs)
  then show ?case by (cases i) (simp_all split: option.splits)
qed

lemma others_killed_mono:
  assumes "others_killed s" and "ps t = ps s" and "pids_of (runs t) = pids_of (runs s)"
    and "set (history s) \<subseteq> set (history t)"
  shows "others_killed t"
  using assms by (auto simp: others_killed_def)

lemma others_killed_cancel: "others_killed s \<Longrightarrow> others_killed (cancel_Command kres s)"
  by (rule others_killed_mono [of s])
     (auto simp: cancel_Command_eq printError_same act_def split: option.splits)

lemma others_killed_run:
  assumes "others_killed s"
  shows "others_killed (run_Command kres os s)"
proof -
  let ?c = "cancel_Command kres s"
  let ?m = "mito False os ?c"
  obtain rs where rs: "runs (snd ?m) = runs ?c @ rs"
      "\<forall>r \<in> set rs. run_pid r = fst (fst ?m)"
    using mito_runs [of False os ?c] by blast
  have hist: "set (history ?c) \<subseteq> set (history (snd ?m))"
    using calm_mito [of ?c False os] by (auto simp: calm_def dest: set_mono_prefix)
  have c: "others_killed ?c" using assms by (rule others_killed_cancel)
  have pc: "\<forall>p \<in> set (pids_of (runs ?c)). CallKill p \<in> set (history ?c)"
  proof
    fix p assume p: "p \<in> set (pids_of (runs ?c))"
    then have "ps ?c = Some p \<or> CallKill p \<in> set (history ?c)"
      using c by (simp add: others_killed_def)
    moreover have "ps ?c = Some p \<Longrightarrow> CallKill p \<in> set (history ?c)"
      by (simp add: cancel_Command_eq printError_same act_def split: option.splits)
    ultimately show "CallKill p \<in> set (history ?c)" by blast
  qed
  have new: "\<forall>p \<in> set (pids_of rs). fst (fst ?m) = Some p"
    using rs(2) by (induction rs) (auto split: option.splits)
  show ?thesis
    using pc new hist
    by (auto simp: others_killed_def run_Command_eq printError_same rs(1) pids_of_append)
qed

lemma perform_others:
  "ps (perform st i e s) = ps s \<and>
   pids_of (runs (perform st i e s)) = pids_of (runs s) \<and>
   set (history s) \<subseteq> set (history (perform st i e s))"
  by (cases e; cases st)
     (auto simp: send_def ticker_def cancel_ctx_def act_def pids_of_update)

lemma fold_perform_others:
  "ps (fold (perform st i) es s) = ps s \<and>
   pids_of (runs (fold (perform st i) es s)) = pids_of (runs s) \<and>
   set (history s) \<subseteq> set (history (fold (perform st i) es s))"
proof (induction es arbitrary: s)
  case Nil
  show ?case by simp
next
  case (Cons e es)
  show ?case
    using Cons.IH [of "perform st i e s"] perform_others [of st i e s]
    by (simp only: fold_Cons comp_apply) blast
qed

lemma others_killed_step:
  assumes "others_killed s" and "step mi s e = Some t" and "\<not> is_ReaperStep e"
  shows "others_killed t"
proof (cases e)
  case (RunClick kres os)
  with assms show ?thesis by (auto intro: others_killed_run)
next
  case (CancelClick kres)
  with assms show ?thesis by (auto intro: others_killed_cancel)
next
  case (StdoutPass i r)
  with assms(2) have t: "t = fold (perform Stdout i) (stdout_pass mi r) s"
    by (simp split: if_splits)
  show ?thesis
    using fold_perform_others [of Stdout i "stdout_pass mi r" s]
    by (intro others_killed_mono [OF assms(1)]) (simp_all add: t)
next
  case (StderrPass i r)
  with assms(2) have t: "t = fold (perform Stderr i) (stderr_pass r) s"
    by (simp split: if_splits)
  show ?thesis
    using fold_perform_others [of Stderr i "stderr_pass r" s]
    by (intro others_killed_mono [OF assms(1)]) (simp_all add: t)
next
  case (ReaperStep i)
  with assms(3) show ?thesis by simp
qed (use assms in \<open>auto simp: others_killed_def clear_Command_def\<close>)

lemma others_killed_exec:
  "others_killed s \<Longrightarrow> exec mi s evs = Some t \<Longrightarrow> \<forall>e \<in> set evs. \<not> is_ReaperStep e \<Longrightarrow>
   others_killed t"
proof (induction evs arbitrary: s)
  case Nil
  then show ?case by simp
next
  case (Cons e evs)
  from Cons.prems(2) obtain u where u: "step mi s e = Some u" "exec mi u evs = Some t"
    by (auto split: option.splits)
  have "others_killed u"
    using Cons.prems(1) u(1) Cons.prems(3) by (auto intro: others_killed_step)
  then show ?case using u(2) Cons.prems(3) by (auto intro: Cons.IH)
qed

lemma run_Command_kills_first:
  "(ps s = Some p \<longrightarrow>
      (\<exists>h. history (run_Command kres os s) = history s @ CallKill p # h \<and>
           history (snd (mito False os (cancel_Command kres s))) =
             history (cancel_Command kres s) @ h)) \<and>
   ps (run_Command kres os s) = fst (fst (mito False os (cancel_Command kres s)))"
proof -
  let ?c = "cancel_Command kres s"
  have a: "\<exists>h. history (run_Command kres os s) = history s @ CallKill p # h \<and>
           history (snd (mito False os ?c)) = history ?c @ h" if p: "ps s = Some p"
  proof -
    have c: "history ?c = history s @ [CallKill p]"
      using p by (simp add: cancel_Command_eq printError_same act_def)
    obtain h where h: "history (snd (mito False os ?c)) = history ?c @ h"
      using calm_mito [of ?c False os] by (auto simp: calm_def prefix_def)
    have "history (run_Command kres os s) = history (snd (mito False os ?c))"
      by (simp add: run_Command_eq printError_same)
    with h c show ?thesis by simp
  qed
  have b: "ps (run_Command kres os s) = fst (fst (mito False os ?c))"
    by (simp add: run_Command_eq printError_same)
  from a b show ?thesis by blast
qed

text \<open>
  C1. At most one process handle is active at a time. The Run command works towards
  this: it calls \<^verbatim>\<open>Kill\<close> on the handle in the slot before it starts the new run
  (\<open>run_Command_kills_first\<close>), and as long as no reaping goroutine runs, every process
  that was started is the one in the slot or has been killed (\<open>others_killed_exec\<close>).
  The reaping goroutine breaks it. Its \<^verbatim>\<open>m.ps.Store(nil)\<close> clears the slot whatever
  the slot holds. Below, a first run starts process 8 and a second run kills 8 and
  starts 9. The readers of the first run see the end of their streams and its reaping
  goroutine clears the slot, which holds 9. A third run then finds the slot empty,
  kills nothing and starts 10: the processes 9 and 10 are both started, \<^verbatim>\<open>Kill\<close> was
  only ever called on 8, and the slot holds 10, so no request can reach 9 any more.
\<close>
theorem stale_reaper_clears_slot:
  "map_option (\<lambda>t. (ps t, pids_of (runs t), kills (history t)))
     (exec (\<lambda>v::nat. Inr ''1'') (newMiko [] [])
        [EditSrc ''1'',
         RunClick None (all_ok ''/tmp/miko-1'' 8),
         RunClick None (all_ok ''/tmp/miko-2'' 9),
         StdoutPass 0 (DecodeError EOF),
         StderrPass 0 (ScanEnd None),
         ReaperStep 0, ReaperStep 0, ReaperStep 0]) =
     Some (None, [8, 9], [8]) \<and>
   map_option (\<lambda>t. (ps t, pids_of (runs t), kills (history t)))
     (exec (\<lambda>v::nat. Inr ''1'') (newMiko [] [])
        [EditSrc ''1'',
         RunClick None (all_ok ''/tmp/miko-1'' 8),
         RunClick None (all_ok ''/tmp/miko-2'' 9),
         StdoutPass 0 (DecodeError EOF),
         StderrPass 0 (ScanEnd None),
         ReaperStep 0, ReaperStep 0, ReaperStep 0,
         RunClick None (all_ok ''/tmp/miko-3'' 10)]) =
     Some (Some 10, [8, 9, 10], [8])"
  by (simp add: model_defs)

subsection \<open>The workspace\<close>

lemma inside_Join: "inside dir (filepath_Join dir name)"
  by (simp add: inside_def filepath_Join_def)

lemma Join_neq_dir: "filepath_Join dir name \<noteq> dir"
  by (simp add: filepath_Join_def)

lemma outside_put_file: "inside dir p \<Longrightarrow> outside dir (put_file p c fs) = outside dir fs"
proof -
  assume p: "inside dir p"
  have "filter (\<lambda>(q, d). q \<noteq> dir \<and> \<not> inside dir q) (filter (\<lambda>(q, d). q \<noteq> p) fs) =
        filter (\<lambda>(q, d). q \<noteq> dir \<and> \<not> inside dir q) fs"
    using p by (induction fs) auto
  with p show ?thesis by (simp add: outside_def put_file_def)
qed

lemma outside_written: "inside dir p \<Longrightarrow> outside dir (written w p c fs) = outside dir fs"
  by (simp add: written_def outside_put_file split: write_result.splits option.splits)

lemma wrote_refl: "wrote dir s s"
proof -
  have "history s = history s @ write_calls []" by (simp add: write_calls_def)
  then show ?thesis unfolding wrote_def same_ui_def by blast
qed

lemma wrote_trans:
  assumes "wrote dir a b" and "wrote dir b c"
  shows "wrote dir a c"
proof -
  from assms obtain ws vs where
    "history b = history a @ write_calls ws" "history c = history b @ write_calls vs"
    by (auto simp: wrote_def)
  then have "history c = history a @ write_calls (ws @ vs)"
    by (simp add: write_calls_def)
  then have "\<exists>us. history c = history a @ write_calls us" by blast
  with assms show ?thesis by (simp add: wrote_def same_ui_def)
qed

lemma wrote_WriteFile: "inside dir p \<Longrightarrow> wrote dir s (snd (WriteFile os p c s))"
proof -
  assume p: "inside dir p"
  have "history (snd (WriteFile os p c s)) = history s @ write_calls [(p, c)]"
    by (simp add: WriteFile_def act_def write_calls_def)
  then have "\<exists>ws. history (snd (WriteFile os p c s)) = history s @ write_calls ws" by blast
  then show ?thesis
    using p by (simp add: wrote_def same_ui_def WriteFile_def act_def outside_written)
qed

lemma wrote_write_data: "wrote dir s (snd (write_data os dir args s))"
  by (simp add: write_data_eq wrote_WriteFile inside_Join wrote_refl)

lemma wrote_write_cfg: "wrote dir s (snd (write_cfg os dir args s))"
  by (simp add: write_cfg_eq wrote_WriteFile inside_Join wrote_refl)

lemma wrote_write_src: "wrote dir s (snd (write_src os dir args s))"
  by (simp add: write_src_eq wrote_WriteFile inside_Join)

lemma wrote_prepare: "wrote dir s (snd (prepare os dir s))"
proof -
  obtain r1 s1 where d: "write_data os dir [] s = (r1, s1)"
    by (cases "write_data os dir [] s")
  have q1: "wrote dir s s1" using wrote_write_data [of dir s os "[]"] d by simp
  show ?thesis
  proof (cases r1)
    case (Inl err)
    with d q1 show ?thesis by (simp add: prepare_def)
  next
    case (Inr args)
    obtain r2 s2 where c: "write_cfg os dir args s1 = (r2, s2)"
      by (cases "write_cfg os dir args s1")
    have q2: "wrote dir s s2"
      using wrote_trans [OF q1 wrote_write_cfg [of dir s1 os args]] c by simp
    show ?thesis
    proof (cases r2)
      case (Inl err)
      with d c Inr q2 show ?thesis by (simp add: prepare_def)
    next
      case (Inr args2)
      have "wrote dir s (snd (write_src os dir (option_flags s2 args2) s2))"
        using q2 wrote_write_src by (rule wrote_trans)
      with d c \<open>r1 = Inr args\<close> Inr show ?thesis by (simp add: prepare_def)
    qed
  qed
qed

lemma write_data_fst:
  "fst (write_data os dir args s) =
     (case (if data s \<noteq> [] then write_error (os_WriteFile os (filepath_Join dir ''data.json''))
            else None) of
        Some err \<Rightarrow> Inl err
      | None \<Rightarrow>
          Inr (args @ (if data s \<noteq> [] then [''-data'', filepath_Join dir ''data.json''] else [])))"
  by (simp add: write_data_eq split: option.splits)

lemma write_cfg_fst:
  "fst (write_cfg os dir args s) =
     (case (if cfg s \<noteq> [] then write_error (os_WriteFile os (filepath_Join dir ''cfg.yml''))
            else None) of
        Some err \<Rightarrow> Inl err
      | None \<Rightarrow>
          Inr (args @ (if cfg s \<noteq> [] then [''-cfg'', filepath_Join dir ''cfg.yml''] else [])))"
  by (simp add: write_cfg_eq split: option.splits)

lemma write_src_fst:
  "fst (write_src os dir args s) =
     (case write_error (os_WriteFile os (filepath_Join dir ''src.cel'')) of
        Some err \<Rightarrow> Inl err
      | None \<Rightarrow> Inr (args @ [filepath_Join dir ''src.cel'']))"
  by (simp add: write_src_eq)

lemma option_flags_eq:
  "option_flags s args =
     args @ (if insecure s then [''-insecure''] else []) @
       (if logRequests s then [''-log_requests''] else []) @
       (if dumpCrash s then [''-dump'', ''error''] else [])"
  by (simp add: option_flags_def)

lemma prepare_result:
  "fst (prepare os dir s) =
     (case first_write_error os dir s of
        Some err \<Rightarrow> Inl err
      | None \<Rightarrow> Inr (spec_args dir s))"
proof -
  let ?e1 = "if data s \<noteq> [] then write_error (os_WriteFile os (filepath_Join dir ''data.json''))
             else None"
  let ?e2 = "if cfg s \<noteq> [] then write_error (os_WriteFile os (filepath_Join dir ''cfg.yml''))
             else None"
  let ?e3 = "write_error (os_WriteFile os (filepath_Join dir ''src.cel''))"
  let ?a1 = "if data s \<noteq> [] then [''-data'', filepath_Join dir ''data.json''] else []"
  let ?a2 = "if cfg s \<noteq> [] then [''-cfg'', filepath_Join dir ''cfg.yml''] else []"
  obtain r1 s1 where d: "write_data os dir [] s = (r1, s1)"
    by (cases "write_data os dir [] s")
  have r1: "r1 = (case ?e1 of Some err \<Rightarrow> Inl err | None \<Rightarrow> Inr ?a1)"
    using write_data_fst [of os dir "[]" s] d by (simp split: option.splits)
  have w1: "wrote dir s s1"
    using wrote_write_data [of dir s os "[]"] d by simp
  show ?thesis
  proof (cases ?e1)
    case (Some err)
    then have "r1 = Inl err" using r1 by simp
    then have "fst (prepare os dir s) = Inl err" using d by (simp add: prepare_def)
    moreover have "first_write_error os dir s = Some err"
      using Some by (simp add: first_write_error_def)
    ultimately show ?thesis by simp
  next
    case None
    then have i1: "r1 = Inr ?a1" using r1 by simp
    obtain r2 s2 where c: "write_cfg os dir ?a1 s1 = (r2, s2)"
      by (cases "write_cfg os dir ?a1 s1")
    have cs: "cfg s1 = cfg s" using w1 by (simp add: wrote_def same_ui_def)
    have r2: "r2 = (case ?e2 of Some err \<Rightarrow> Inl err | None \<Rightarrow> Inr (?a1 @ ?a2))"
      using write_cfg_fst [of os dir ?a1 s1] c by (simp only: cs fst_conv)
    have w2: "wrote dir s s2"
      using wrote_trans [OF w1 wrote_write_cfg [of dir s1 os ?a1]] c by simp
    have p: "prepare os dir s =
        (case r2 of Inl err \<Rightarrow> (Inl err, s2)
         | Inr args \<Rightarrow> write_src os dir (option_flags s2 args) s2)"
      using d c i1 by (simp add: prepare_def)
    show ?thesis
    proof (cases ?e2)
      case (Some err)
      then have "r2 = Inl err" using r2 by simp
      then have "fst (prepare os dir s) = Inl err" using p by simp
      moreover have "first_write_error os dir s = Some err"
        using Some \<open>?e1 = None\<close> by (simp add: first_write_error_def)
      ultimately show ?thesis by simp
    next
      case None
      then have i2: "r2 = Inr (?a1 @ ?a2)" using r2 by simp
      have fl: "insecure s2 = insecure s" "logRequests s2 = logRequests s"
          "dumpCrash s2 = dumpCrash s"
        using w2 by (simp_all add: wrote_def same_ui_def)
      have sa: "option_flags s2 (?a1 @ ?a2) @ [filepath_Join dir ''src.cel''] = spec_args dir s"
        by (simp add: option_flags_eq fl spec_args_def)
      have "fst (prepare os dir s) =
          (case ?e3 of Some err \<Rightarrow> Inl err | None \<Rightarrow> Inr (spec_args dir s))"
        using p i2 write_src_fst [of os dir "option_flags s2 (?a1 @ ?a2)" s2]
        by (simp only: sum.case sa)
      moreover have "first_write_error os dir s = ?e3"
        using None \<open>?e1 = None\<close> by (simp add: first_write_error_def)
      ultimately show ?thesis by simp
    qed
  qed
qed

lemma write_error_None: "write_error w = None \<longleftrightarrow> w = WriteOk"
  by (cases w) (simp_all add: write_error_def)

lemma WriteFile_ok:
  "write_error (os_WriteFile os p) = None \<Longrightarrow>
   WriteFile os p c s =
     (None, s\<lparr>history := history s @ [CallWriteFile p c], files := put_file p c (files s)\<rparr>)"
  by (cases "os_WriteFile os p") (simp_all add: WriteFile_def written_def write_error_def act_def)

lemma write_calls_append: "write_calls (ws @ vs) = write_calls ws @ write_calls vs"
  by (simp add: write_calls_def)

lemma put_files_append: "put_files (ws @ vs) fs = put_files vs (put_files ws fs)"
  by (simp add: put_files_def)

lemma put_files_simps:
  "put_files [] fs = fs" "put_files [(p, c)] fs = put_file p c fs"
  by (simp_all add: put_files_def)

lemma write_calls_simps:
  "write_calls [] = []" "write_calls [(p, c)] = [CallWriteFile p c]"
  by (simp_all add: write_calls_def)

lemma write_data_ok:
  assumes "(if data s \<noteq> [] then write_error (os_WriteFile os (filepath_Join dir ''data.json''))
            else None) = None"
  shows "write_data os dir args s =
     (Inr (args @ (if data s \<noteq> [] then [''-data'', filepath_Join dir ''data.json''] else [])),
      s\<lparr>history := history s @
            write_calls (if data s \<noteq> [] then [(filepath_Join dir ''data.json'', data s)] else []),
        files := put_files
            (if data s \<noteq> [] then [(filepath_Join dir ''data.json'', data s)] else []) (files s)\<rparr>)"
proof (cases "data s = []")
  case True
  then show ?thesis by (simp add: write_data_def put_files_simps write_calls_simps)
next
  case False
  with assms have "write_error (os_WriteFile os (filepath_Join dir ''data.json'')) = None"
    by simp
  from WriteFile_ok [OF this] False show ?thesis
    by (simp add: write_data_def put_files_simps write_calls_simps Let_def)
qed

lemma write_cfg_ok:
  assumes "(if cfg s \<noteq> [] then write_error (os_WriteFile os (filepath_Join dir ''cfg.yml''))
            else None) = None"
  shows "write_cfg os dir args s =
     (Inr (args @ (if cfg s \<noteq> [] then [''-cfg'', filepath_Join dir ''cfg.yml''] else [])),
      s\<lparr>history := history s @
            write_calls (if cfg s \<noteq> [] then [(filepath_Join dir ''cfg.yml'', cfg s)] else []),
        files := put_files
            (if cfg s \<noteq> [] then [(filepath_Join dir ''cfg.yml'', cfg s)] else []) (files s)\<rparr>)"
proof (cases "cfg s = []")
  case True
  then show ?thesis by (simp add: write_cfg_def put_files_simps write_calls_simps)
next
  case False
  with assms have "write_error (os_WriteFile os (filepath_Join dir ''cfg.yml'')) = None"
    by simp
  from WriteFile_ok [OF this] False show ?thesis
    by (simp add: write_cfg_def put_files_simps write_calls_simps Let_def)
qed

lemma write_src_ok:
  assumes "write_error (os_WriteFile os (filepath_Join dir ''src.cel'')) = None"
  shows "write_src os dir args s =
     (Inr (args @ [filepath_Join dir ''src.cel'']),
      s\<lparr>history := history s @ write_calls [(filepath_Join dir ''src.cel'', src s)],
        files := put_files [(filepath_Join dir ''src.cel'', src s)] (files s)\<rparr>)"
  using WriteFile_ok [OF assms]
  by (simp add: write_src_def put_files_simps write_calls_simps Let_def)

lemma first_write_error_None:
  "first_write_error os dir s = None \<longleftrightarrow>
     (if data s \<noteq> [] then write_error (os_WriteFile os (filepath_Join dir ''data.json''))
      else None) = None \<and>
     (if cfg s \<noteq> [] then write_error (os_WriteFile os (filepath_Join dir ''cfg.yml''))
      else None) = None \<and>
     write_error (os_WriteFile os (filepath_Join dir ''src.cel'')) = None"
  by (auto simp: first_write_error_def split: option.splits if_splits)

lemma prepare_ok:
  assumes "first_write_error os dir s = None"
  shows "snd (prepare os dir s) =
     s\<lparr>history := history s @ write_calls (spec_files dir s),
       files := put_files (spec_files dir s) (files s)\<rparr>"
proof -
  let ?d1 = "if data s \<noteq> [] then [(filepath_Join dir ''data.json'', data s)] else []"
  let ?d2 = "if cfg s \<noteq> [] then [(filepath_Join dir ''cfg.yml'', cfg s)] else []"
  let ?d3 = "[(filepath_Join dir ''src.cel'', src s)]"
  let ?s1 = "s\<lparr>history := history s @ write_calls ?d1, files := put_files ?d1 (files s)\<rparr>"
  let ?s2 = "?s1\<lparr>history := history ?s1 @ write_calls ?d2, files := put_files ?d2 (files ?s1)\<rparr>"
  let ?s3 = "?s2\<lparr>history := history ?s2 @ write_calls ?d3, files := put_files ?d3 (files ?s2)\<rparr>"
  from assms have e:
    "(if data s \<noteq> [] then write_error (os_WriteFile os (filepath_Join dir ''data.json''))
      else None) = None"
    "(if cfg s \<noteq> [] then write_error (os_WriteFile os (filepath_Join dir ''cfg.yml''))
      else None) = None"
    "write_error (os_WriteFile os (filepath_Join dir ''src.cel'')) = None"
    by (simp_all add: first_write_error_None)
  obtain a1 where d: "write_data os dir [] s = (Inr a1, ?s1)"
    using write_data_ok [OF e(1), of "[]"] by blast
  have e2: "(if cfg ?s1 \<noteq> [] then write_error (os_WriteFile os (filepath_Join dir ''cfg.yml''))
      else None) = None"
    using e(2) by simp
  obtain a2 where c: "write_cfg os dir a1 ?s1 = (Inr a2, ?s2)"
    using write_cfg_ok [OF e2, of a1] by simp
  obtain a3 where w: "write_src os dir (option_flags ?s2 a2) ?s2 = (Inr a3, ?s3)"
    using write_src_ok [OF e(3), of "option_flags ?s2 a2" ?s2] by simp
  have "snd (prepare os dir s) = ?s3"
    by (simp only: prepare_def d c w prod.case sum.case snd_conv)
  also have "?s3 = s\<lparr>history := history s @ write_calls (spec_files dir s),
       files := put_files (spec_files dir s) (files s)\<rparr>"
    by (simp add: spec_files_def write_calls_append put_files_append)
  finally show ?thesis .
qed

lemma spec_same:
  assumes "same_ui s t"
  shows "spec_files dir t = spec_files dir s" "spec_args dir t = spec_args dir s"
    "first_write_error os dir t = first_write_error os dir s"
  using assms by (simp_all add: same_ui_def spec_files_def spec_args_def first_write_error_def)

lemma MkdirTemp_ok:
  "os_MkdirTemp os = Inr dir \<Longrightarrow>
   snd (MkdirTemp os s) = s\<lparr>history := history s @ [CallMkdirTemp], dirs := dirs s @ [dir]\<rparr>"
  by (simp add: MkdirTemp_def act_def)

lemma mito_prepared:
  assumes "src s \<noteq> []" and "os_MkdirTemp os = Inr dir" and "first_write_error os dir s = None"
  shows "mito keep os s =
     spawn keep os dir (spec_args dir s)
       (s\<lparr>history := history s @ CallMkdirTemp # write_calls (spec_files dir s),
          dirs := dirs s @ [dir],
          files := put_files (spec_files dir s) (files s)\<rparr>)"
proof -
  let ?m = "snd (MkdirTemp os s)"
  have u: "same_ui s ?m" using quiet_MkdirTemp [of s os] by (simp add: quiet_def)
  have f: "first_write_error os dir ?m = None"
    using assms(3) spec_same(3) [OF u] by simp
  have r: "fst (prepare os dir ?m) = Inr (spec_args dir s)"
    by (simp add: prepare_result f spec_same(2) [OF u])
  have t: "snd (prepare os dir ?m) =
      s\<lparr>history := history s @ CallMkdirTemp # write_calls (spec_files dir s),
        dirs := dirs s @ [dir],
        files := put_files (spec_files dir s) (files s)\<rparr>"
    unfolding prepare_ok [OF f] spec_same(1) [OF u]
    by (simp add: MkdirTemp_ok [OF assms(2)])
  have "prepare os dir ?m = (fst (prepare os dir ?m), snd (prepare os dir ?m))" by simp
  then have p: "prepare os dir ?m =
      (Inr (spec_args dir s),
       s\<lparr>history := history s @ CallMkdirTemp # write_calls (spec_files dir s),
         dirs := dirs s @ [dir],
         files := put_files (spec_files dir s) (files s)\<rparr>)"
    by (simp only: r t)
  show ?thesis
    using assms(1,2) by (simp only: mito_eq p if_False sum.case prod.case)
qed

lemma mito_failed:
  assumes "src s \<noteq> []" and "os_MkdirTemp os = Inr dir" and "first_write_error os dir s = Some err"
  shows "mito keep os s =
     ((None, Some err), RemoveAll dir (snd (prepare os dir (snd (MkdirTemp os s)))))"
proof -
  let ?m = "snd (MkdirTemp os s)"
  have u: "same_ui s ?m" using quiet_MkdirTemp [of s os] by (simp add: quiet_def)
  have f: "first_write_error os dir ?m = Some err"
    using assms(3) spec_same(3) [OF u] by simp
  have r: "fst (prepare os dir ?m) = Inl err"
    by (simp add: prepare_result f)
  show ?thesis
    using assms(1,2) by (simp add: mito_eq split_beta r)
qed

lemma mito_success_cases:
  assumes "fst (mito keep os s) = (Some p, None)"
  shows "src s \<noteq> [] \<and>
     (\<exists>dir. os_MkdirTemp os = Inr dir \<and> first_write_error os dir s = None) \<and>
     cmd_StdoutPipe os = None \<and> cmd_StderrPipe os = None \<and> cmd_Start os = Inr p"
proof -
  have s: "src s \<noteq> []" using assms by (auto simp: mito_def)
  obtain dir where dir: "os_MkdirTemp os = Inr dir"
    using assms s by (cases "os_MkdirTemp os") (auto simp: mito_eq)
  have f: "first_write_error os dir s = None"
  proof (cases "first_write_error os dir s")
    case None
    then show ?thesis .
  next
    case (Some err)
    from mito_failed [OF s dir Some] assms show ?thesis by simp
  qed
  from mito_prepared [OF s dir f, of keep] assms
  have "cmd_StdoutPipe os = None \<and> cmd_StderrPipe os = None \<and> cmd_Start os = Inr p"
    by (simp add: spawn_eq split: option.splits sum.splits)
  with s dir f show ?thesis by blast
qed

lemma files_in_put_files_aux:
  assumes "distinct (map fst ws)" and "\<forall>(p, c) \<in> set ws. inside dir p"
  shows "filter (\<lambda>(p, c). inside dir p) (put_files ws fs) =
         filter (\<lambda>(p, c). inside dir p \<and> p \<notin> fst ` set ws) fs @ ws"
  using assms
proof (induction ws arbitrary: fs)
  case Nil
  show ?case by (simp add: put_files_def)
next
  case (Cons w ws)
  obtain p c where w: "w = (p, c)" by (cases w)
  have ih: "filter (\<lambda>(p, c). inside dir p) (put_files ws (put_file p c fs)) =
         filter (\<lambda>(p, c). inside dir p \<and> p \<notin> fst ` set ws) (put_file p c fs) @ ws"
    using Cons.prems by (intro Cons.IH) auto
  have pi: "inside dir p" and pn: "p \<notin> fst ` set ws"
    using Cons.prems w by auto
  have "filter (\<lambda>(q, d). inside dir q \<and> q \<notin> fst ` set ws) (put_file p c fs) =
        filter (\<lambda>(q, d). inside dir q \<and> q \<notin> fst ` set (w # ws)) fs @ [(p, c)]"
    using pi pn w by (induction fs) (auto simp: put_file_def)
  with ih show ?case
    by (simp add: put_files_def w)
qed

lemma files_in_put_files:
  assumes "distinct (map fst ws)" and "\<forall>(p, c) \<in> set ws. inside dir p"
    and "\<forall>(p, c) \<in> set fs. \<not> inside dir p"
  shows "filter (\<lambda>(p, c). inside dir p) (put_files ws fs) = ws"
proof -
  have "filter (\<lambda>(p, c). inside dir p \<and> p \<notin> fst ` set ws) fs = []"
    using assms(3) by (induction fs) auto
  with files_in_put_files_aux [OF assms(1,2), of fs] show ?thesis by simp
qed

lemma spec_files_distinct: "distinct (map fst (spec_files dir s))"
  by (simp add: spec_files_def filepath_Join_def)

lemma spec_files_inside: "\<forall>(p, c) \<in> set (spec_files dir s). inside dir p"
  by (auto simp: spec_files_def inside_Join split: if_splits)

lemma spec_files_length: "length (spec_files dir s) = payload_count s"
  by (simp add: spec_files_def payload_count_def)

lemma fresh_files_in: "fresh dir s \<Longrightarrow> \<forall>(p, c) \<in> set (files s). \<not> inside dir p"
  by (auto simp: fresh_def)

lemma fresh_outside: "fresh dir s \<Longrightarrow> outside dir (files s) = files s"
  by (auto simp: fresh_def outside_def)

lemma files_in_outside: "filter (\<lambda>(p, c). inside dir p) (outside dir fs) = []"
  by (induction fs) (auto simp: outside_def)

lemma finalize_files:
  "files (finalize i u) =
     (if run_keep (runs u ! i) then files u else outside (run_dir (runs u ! i)) (files u))"
  by (simp add: finalize_def RemoveAll_def act_def outside_def Let_def)

lemma outside_put_files:
  "\<forall>(p, c) \<in> set ws. inside dir p \<Longrightarrow> outside dir (put_files ws fs) = outside dir fs"
proof (induction ws arbitrary: fs)
  case Nil
  show ?case by (simp add: put_files_def)
next
  case (Cons w ws)
  obtain p c where w: "w = (p, c)" by (cases w)
  have "outside dir (put_files ws (put_file p c fs)) = outside dir (put_file p c fs)"
    using Cons.prems by (intro Cons.IH) auto
  moreover have "inside dir p" using Cons.prems w by auto
  ultimately show ?case by (simp add: put_files_def w outside_put_file)
qed

lemma spawn_history:
  "\<exists>rest. history (snd (spawn keep os dir args s)) =
            history s @ CallCommand ''mito'' args # rest \<and>
          set rest \<subseteq> {CallStdoutPipe, CallStderrPipe, CallStart}"
  by (simp add: spawn_eq split: option.splits sum.splits)

text \<open>
  C7. When the program text is not empty (and the directory and the writes succeed, so
  that a command is built at all) the engine is called with \<^verbatim>\<open>-data\<close> and a path only
  when there is input data, then \<^verbatim>\<open>-cfg\<close> and a path only when there is a
  configuration, then the flag of each option that is switched on, and last the path
  of the program text; the files written are those of the payloads that are not
  empty, and they are the files the arguments name.
\<close>
theorem engine_arguments:
  assumes "src s \<noteq> []" and "os_MkdirTemp os = Inr dir" and "first_write_error os dir s = None"
  shows
    "(\<exists>rest. history (snd (mito keep os s)) =
        history s @ CallMkdirTemp # write_calls (spec_files dir s) @
          CallCommand ''mito'' (spec_args dir s) # rest \<and>
        set rest \<subseteq> {CallStdoutPipe, CallStderrPipe, CallStart}) \<and>
     last (spec_args dir s) = filepath_Join dir ''src.cel'' \<and>
     files (snd (mito keep os s)) = put_files (spec_files dir s) (files s)"
proof -
  let ?p = "s\<lparr>history := history s @ CallMkdirTemp # write_calls (spec_files dir s),
          dirs := dirs s @ [dir],
          files := put_files (spec_files dir s) (files s)\<rparr>"
  have m: "mito keep os s = spawn keep os dir (spec_args dir s) ?p"
    using assms by (rule mito_prepared)
  obtain rest where r:
    "history (snd (spawn keep os dir (spec_args dir s) ?p)) =
       history ?p @ CallCommand ''mito'' (spec_args dir s) # rest"
    "set rest \<subseteq> {CallStdoutPipe, CallStderrPipe, CallStart}"
    using spawn_history [of keep os dir "spec_args dir s" ?p] by blast
  have a: "\<exists>rest. history (snd (mito keep os s)) =
        history s @ CallMkdirTemp # write_calls (spec_files dir s) @
          CallCommand ''mito'' (spec_args dir s) # rest \<and>
        set rest \<subseteq> {CallStdoutPipe, CallStderrPipe, CallStart}"
    using r by (simp add: m)
  have b: "last (spec_args dir s) = filepath_Join dir ''src.cel''"
    by (simp add: spec_args_def)
  have c: "files (snd (mito keep os s)) = put_files (spec_files dir s) (files s)"
    by (simp add: m spawn_eq split: option.splits sum.splits)
  from a b c show ?thesis by blast
qed

theorem engine_arguments_witness:
  "src ((newMiko [] [])\<lparr>src := ''1'', data := ''{}'', dumpCrash := True\<rparr>) \<noteq> [] \<and>
   os_MkdirTemp (all_ok ''/tmp/miko-1'' 7) = Inr ''/tmp/miko-1'' \<and>
   first_write_error (all_ok ''/tmp/miko-1'' 7) ''/tmp/miko-1''
     ((newMiko [] [])\<lparr>src := ''1'', data := ''{}'', dumpCrash := True\<rparr>) = None \<and>
   history (snd (mito False (all_ok ''/tmp/miko-1'' 7)
     ((newMiko [] [])\<lparr>src := ''1'', data := ''{}'', dumpCrash := True\<rparr>))) =
     [CallMkdirTemp,
      CallWriteFile ''/tmp/miko-1/data.json'' ''{}'',
      CallWriteFile ''/tmp/miko-1/src.cel'' ''1'',
      CallCommand ''mito''
        [''-data'', ''/tmp/miko-1/data.json'', ''-dump'', ''error'', ''/tmp/miko-1/src.cel''],
      CallStdoutPipe, CallStderrPipe, CallStart]"
  using engine_arguments
    [where s = "(newMiko [] [])\<lparr>src := ''1'', data := ''{}'', dumpCrash := True\<rparr>"
       and os = "all_ok ''/tmp/miko-1'' 7" and dir = "''/tmp/miko-1''" and keep = False]
  by (simp add: model_defs first_write_error_def)

text \<open>
  C9. When the program text is not empty and \<^verbatim>\<open>os.MkdirTemp\<close> fails, or a write of
  the data, the configuration or the program text fails, \<^verbatim>\<open>mito\<close> returns that error
  and no process: no command is built, no goroutine is started, and the file system
  is as it was before the call, since the last thing \<^verbatim>\<open>mito\<close> does after a failed
  write is to remove the directory it made.
\<close>
theorem failed_start_leaves_nothing:
  assumes "src s \<noteq> []"
  shows
    "(os_MkdirTemp os = Inl err \<longrightarrow>
        mito keep os s = ((None, Some err), act CallMkdirTemp s)) \<and>
     (os_MkdirTemp os = Inr dir \<and> fresh dir s \<and> first_write_error os dir s = Some err \<longrightarrow>
        fst (mito keep os s) = (None, Some err) \<and>
        files (snd (mito keep os s)) = files s \<and>
        dirs (snd (mito keep os s)) = dirs s \<and>
        runs (snd (mito keep os s)) = runs s \<and>
        (\<exists>ws. history (snd (mito keep os s)) =
           history s @ CallMkdirTemp # write_calls ws @ [CallRemoveAll dir]))"
proof -
  have a: "mito keep os s = ((None, Some err), act CallMkdirTemp s)"
    if "os_MkdirTemp os = Inl err"
    using that assms by (simp add: mito_eq MkdirTemp_def act_def)
  have b: "fst (mito keep os s) = (None, Some err) \<and>
        files (snd (mito keep os s)) = files s \<and>
        dirs (snd (mito keep os s)) = dirs s \<and>
        runs (snd (mito keep os s)) = runs s \<and>
        (\<exists>ws. history (snd (mito keep os s)) =
           history s @ CallMkdirTemp # write_calls ws @ [CallRemoveAll dir])"
    if d: "os_MkdirTemp os = Inr dir" and f: "fresh dir s"
      and e: "first_write_error os dir s = Some err"
  proof -
    let ?m = "snd (MkdirTemp os s)"
    let ?p = "snd (prepare os dir ?m)"
    have m: "mito keep os s = ((None, Some err), RemoveAll dir ?p)"
      using assms d e by (rule mito_failed)
    have w: "wrote dir ?m ?p" by (rule wrote_prepare)
    have mk: "?m = s\<lparr>history := history s @ [CallMkdirTemp], dirs := dirs s @ [dir]\<rparr>"
      using d by (rule MkdirTemp_ok)
    obtain ws where h: "history ?p = history ?m @ write_calls ws"
      using w by (auto simp: wrote_def)
    have fl: "files (RemoveAll dir ?p) = outside dir (files ?p)"
      by (simp add: RemoveAll_def outside_def act_def)
    also have "\<dots> = outside dir (files ?m)" using w by (simp add: wrote_def)
    also have "\<dots> = files s" using f by (simp add: mk fresh_outside)
    finally have 1: "files (RemoveAll dir ?p) = files s" .
    have "dirs ?p = dirs s @ [dir]" using w by (simp add: wrote_def mk)
    then have "dirs (RemoveAll dir ?p) =
        filter (\<lambda>d. d \<noteq> dir \<and> \<not> inside dir d) (dirs s @ [dir])"
      by (simp add: RemoveAll_def act_def)
    also have "\<dots> = dirs s" using f by (auto simp: fresh_def intro: filter_True)
    finally have 2: "dirs (RemoveAll dir ?p) = dirs s" .
    have 3: "runs (RemoveAll dir ?p) = runs s"
      using w by (simp add: wrote_def RemoveAll_def act_def mk)
    have 4: "history (RemoveAll dir ?p) =
        history s @ CallMkdirTemp # write_calls ws @ [CallRemoveAll dir]"
      using arg_cong [OF mk, of history] by (simp add: RemoveAll_def act_def h)
    from 1 2 3 4 show ?thesis by (simp only: m fst_conv snd_conv) blast
  qed
  from a b show ?thesis by blast
qed

theorem failed_start_leaves_nothing_witness:
  "src ((newMiko [(''/etc/hosts'', ''h'')] [''/etc''])\<lparr>src := ''1'', data := ''{}''\<rparr>) \<noteq> [] \<and>
   fresh ''/tmp/miko-1''
     ((newMiko [(''/etc/hosts'', ''h'')] [''/etc''])\<lparr>src := ''1'', data := ''{}''\<rparr>) \<and>
   first_write_error
     \<lparr>os_MkdirTemp = Inr ''/tmp/miko-1'',
      os_WriteFile = (\<lambda>q. if q = ''/tmp/miko-1/src.cel''
                           then WriteErr (Other ''no space left on device'') (Some [])
                           else WriteOk),
      cmd_StdoutPipe = None, cmd_StderrPipe = None, cmd_Start = Inr 7\<rparr>
     ''/tmp/miko-1''
     ((newMiko [(''/etc/hosts'', ''h'')] [''/etc''])\<lparr>src := ''1'', data := ''{}''\<rparr>) =
     Some (Other ''no space left on device'') \<and>
   mito False
     \<lparr>os_MkdirTemp = Inr ''/tmp/miko-1'',
      os_WriteFile = (\<lambda>q. if q = ''/tmp/miko-1/src.cel''
                           then WriteErr (Other ''no space left on device'') (Some [])
                           else WriteOk),
      cmd_StdoutPipe = None, cmd_StderrPipe = None, cmd_Start = Inr 7\<rparr>
     ((newMiko [(''/etc/hosts'', ''h'')] [''/etc''])\<lparr>src := ''1'', data := ''{}''\<rparr>) =
     ((None, Some (Other ''no space left on device'')),
      (newMiko [(''/etc/hosts'', ''h'')] [''/etc''])
        \<lparr>src := ''1'', data := ''{}'',
         history := [CallMkdirTemp,
                     CallWriteFile ''/tmp/miko-1/data.json'' ''{}'',
                     CallWriteFile ''/tmp/miko-1/src.cel'' ''1'',
                     CallRemoveAll ''/tmp/miko-1'']\<rparr>)"
  using failed_start_leaves_nothing
    [where s = "(newMiko [(''/etc/hosts'', ''h'')] [''/etc''])\<lparr>src := ''1'', data := ''{}''\<rparr>"
       and dir = "''/tmp/miko-1''" and err = "Other ''no space left on device''" and keep = False
       and os = "\<lparr>os_MkdirTemp = Inr ''/tmp/miko-1'',
      os_WriteFile = (\<lambda>q. if q = ''/tmp/miko-1/src.cel''
                           then WriteErr (Other ''no space left on device'') (Some [])
                           else WriteOk),
      cmd_StdoutPipe = None, cmd_StderrPipe = None, cmd_Start = Inr 7\<rparr>"]
  by (simp add: model_defs first_write_error_def fresh_def)

lemma mito_started:
  assumes "fst (mito keep os s) = (Some p, None)" and "os_MkdirTemp os = Inr dir"
  shows "mito keep os s =
     ((Some p, None),
      s\<lparr>history := history s @ CallMkdirTemp # write_calls (spec_files dir s) @
            [CallCommand ''mito'' (spec_args dir s), CallStdoutPipe, CallStderrPipe, CallStart],
        dirs := dirs s @ [dir],
        files := put_files (spec_files dir s) (files s),
        runs := runs s @ [(new_run dir keep)\<lparr>run_pid := Some p, reaper := Some AwaitStdout\<rparr>]\<rparr>)"
proof -
  from mito_success_cases [OF assms(1)] assms(2)
  have c: "src s \<noteq> []" "first_write_error os dir s = None"
    "cmd_StdoutPipe os = None" "cmd_StderrPipe os = None" "cmd_Start os = Inr p"
    by auto
  show ?thesis
    by (simp add: mito_prepared [OF c(1) assms(2) c(2)] spawn_eq c(3,4,5))
qed

text \<open>
  C3. When \<^verbatim>\<open>mito\<close> returns a process, the workspace holds exactly the files of the
  payloads that are not empty (the program text always, the data and the configuration
  when there is any): as many files as such payloads, each written once. The teardown,
  which is the last step of the reaping goroutine, removes all of them when \<open>keep\<close> is
  false and leaves every file in place when \<open>keep\<close> is true.
\<close>
theorem workspace_files:
  assumes "fst (mito keep os s) = (Some p, None)" and "os_MkdirTemp os = Inr dir"
    and "fresh dir s"
  shows
    "files_in dir (snd (mito keep os s)) = spec_files dir s \<and>
     length (spec_files dir s) = payload_count s \<and>
     history (snd (mito keep os s)) =
       history s @ CallMkdirTemp # write_calls (spec_files dir s) @
         [CallCommand ''mito'' (spec_args dir s), CallStdoutPipe, CallStderrPipe, CallStart] \<and>
     runs (snd (mito keep os s)) =
       runs s @ [(new_run dir keep)\<lparr>run_pid := Some p, reaper := Some AwaitStdout\<rparr>] \<and>
     files_in dir (finalize (length (runs s)) (snd (mito keep os s))) =
       (if keep then spec_files dir s else []) \<and>
     files (finalize (length (runs s)) (snd (mito keep os s))) =
       (if keep then files (snd (mito keep os s)) else files s) \<and>
     (\<forall>u i. i < length (runs u) \<and> reaper (runs u ! i) = Some Ready \<and>
         run_dir (runs u ! i) = dir \<and> run_keep (runs u ! i) = keep \<longrightarrow>
         (\<exists>t. step mi u (ReaperStep i) = Some t \<and>
              files_in dir t = (if keep then files_in dir u else []) \<and>
              (keep \<longrightarrow> files t = files u)))"
proof -
  let ?t = "snd (mito keep os s)"
  let ?i = "length (runs s)"
  note m = mito_started [OF assms(1,2)]
  have fl: "files ?t = put_files (spec_files dir s) (files s)"
    by (simp add: m)
  have 1: "files_in dir ?t = spec_files dir s"
    unfolding files_in_def fl
    by (rule files_in_put_files [OF spec_files_distinct spec_files_inside
          fresh_files_in [OF assms(3)]])
  have 2: "length (spec_files dir s) = payload_count s"
    by (rule spec_files_length)
  have 3: "history ?t =
       history s @ CallMkdirTemp # write_calls (spec_files dir s) @
         [CallCommand ''mito'' (spec_args dir s), CallStdoutPipe, CallStderrPipe, CallStart]"
    by (simp add: m)
  have 4: "runs ?t =
       runs s @ [(new_run dir keep)\<lparr>run_pid := Some p, reaper := Some AwaitStdout\<rparr>]"
    by (simp add: m)
  have r: "run_keep (runs ?t ! ?i) = keep" "run_dir (runs ?t ! ?i) = dir"
    by (simp_all add: 4 new_run_def)
  have o: "outside dir (files ?t) = files s"
    by (simp add: fl outside_put_files [OF spec_files_inside] fresh_outside [OF assms(3)])
  have 6: "files (finalize ?i ?t) = (if keep then files ?t else files s)"
    unfolding finalize_files r o by (rule refl)
  have e: "filter (\<lambda>(p, c). inside dir p) (files s) = []"
    using fresh_outside [OF assms(3)] files_in_outside [of dir "files s"] by simp
  have 5: "files_in dir (finalize ?i ?t) = (if keep then spec_files dir s else [])"
  proof -
    have "files_in dir (finalize ?i ?t) = (if keep then files_in dir ?t else files_in dir s)"
      unfolding files_in_def 6 by (rule if_distrib)
    also have "\<dots> = (if keep then spec_files dir s else [])"
      unfolding 1 unfolding files_in_def e by (rule refl)
    finally show ?thesis .
  qed
  have 7: "\<exists>t. step mi u (ReaperStep i) = Some t \<and>
              files_in dir t = (if keep then files_in dir u else []) \<and>
              (keep \<longrightarrow> files t = files u)"
    if u: "i < length (runs u)" "reaper (runs u ! i) = Some Ready"
      "run_dir (runs u ! i) = dir" "run_keep (runs u ! i) = keep" for u i
  proof -
    have s: "step mi u (ReaperStep i) = Some (set_reaper i Finished (finalize i u))"
      using u(1,2) by simp
    have sr: "files (set_reaper i Finished (finalize i u)) = files (finalize i u)"
      by (simp add: set_reaper_def)
    have f: "files (set_reaper i Finished (finalize i u)) =
        (if keep then files u else outside dir (files u))"
      unfolding sr finalize_files u(3,4) by (rule refl)
    have g: "files_in dir (set_reaper i Finished (finalize i u)) =
        (if keep then files_in dir u else [])"
      unfolding files_in_def f files_in_outside [symmetric, of dir "files u"]
      by (rule if_distrib)
    have h: "keep \<longrightarrow> files (set_reaper i Finished (finalize i u)) = files u"
      unfolding f by simp
    from s g h show ?thesis by blast
  qed
  from 1 2 3 4 5 6 7 show ?thesis by blast
qed

theorem workspace_files_witness:
  "fst (mito False (all_ok ''/tmp/miko-1'' 7)
         ((newMiko [(''/etc/hosts'', ''h'')] [''/etc''])\<lparr>src := ''1'', data := ''{}''\<rparr>)) =
     (Some 7, None) \<and>
   os_MkdirTemp (all_ok ''/tmp/miko-1'' 7) = Inr ''/tmp/miko-1'' \<and>
   fresh ''/tmp/miko-1''
     ((newMiko [(''/etc/hosts'', ''h'')] [''/etc''])\<lparr>src := ''1'', data := ''{}''\<rparr>) \<and>
   payload_count
     ((newMiko [(''/etc/hosts'', ''h'')] [''/etc''])\<lparr>src := ''1'', data := ''{}''\<rparr>) = 2 \<and>
   files_in ''/tmp/miko-1''
     (snd (mito False (all_ok ''/tmp/miko-1'' 7)
         ((newMiko [(''/etc/hosts'', ''h'')] [''/etc''])\<lparr>src := ''1'', data := ''{}''\<rparr>))) =
     [(''/tmp/miko-1/data.json'', ''{}''), (''/tmp/miko-1/src.cel'', ''1'')] \<and>
   files (finalize 0
     (snd (mito False (all_ok ''/tmp/miko-1'' 7)
         ((newMiko [(''/etc/hosts'', ''h'')] [''/etc''])\<lparr>src := ''1'', data := ''{}''\<rparr>)))) =
     [(''/etc/hosts'', ''h'')]"
  using workspace_files
    [where s = "(newMiko [(''/etc/hosts'', ''h'')] [''/etc''])\<lparr>src := ''1'', data := ''{}''\<rparr>"
       and os = "all_ok ''/tmp/miko-1'' 7" and dir = "''/tmp/miko-1''" and keep = False
       and p = 7]
  by (simp add: model_defs fresh_def files_in_def payload_count_def spec_files_def
      spec_args_def write_calls_def new_run_def outside_def)

subsection \<open>The barrier of the reaping goroutine\<close>

lemma waits_append: "waits (as @ bs) = waits as @ waits bs"
  by (induction as rule: waits.induct) simp_all

lemma gated_append: "gated seen (as @ bs) = (gated seen as \<and> gated (seen @ as) bs)"
  by (induction seen as rule: gated.induct) simp_all

lemma gated_no_waits: "waits as = [] \<Longrightarrow> gated seen as"
  by (induction seen as rule: gated.induct) simp_all

lemma gated_wait:
  "gated seen (pre @ CallWait i # post) \<Longrightarrow>
   StdoutDone i \<in> set (seen @ pre) \<and> StderrDone i \<in> set (seen @ pre)"
  by (simp add: gated_append)

lemma gated_grow:
  assumes "prefix h h'" and "waits h' = waits h" and "gated [] h"
  shows "gated [] h'"
proof -
  from assms(1) obtain as where h: "h' = h @ as" by (auto simp: prefix_def)
  with assms(2) have "waits as = []" by (simp add: waits_append)
  then have "gated h as" by (rule gated_no_waits)
  with assms(3) h show ?thesis by (simp add: gated_append)
qed

lemma run_ok_mono: "run_ok h i r \<Longrightarrow> set h \<subseteq> set h' \<Longrightarrow> run_ok h' i r"
  by (auto simp: run_ok_def)

lemma barrier_new_runs:
  assumes b: "barrier s"
    and r: "runs t = runs s @ rs"
    and n: "\<forall>r \<in> set rs. \<not> stdout_done r \<and> \<not> stderr_done r \<and>
              (reaper r = None \<or> reaper r = Some AwaitStdout)"
    and p: "prefix (history s) (history t)"
    and w: "waits (history t) = waits (history s)"
  shows "barrier t"
proof -
  have g: "gated [] (history t)"
    using p w b by (auto simp: barrier_def intro: gated_grow)
  have m: "set (history s) \<subseteq> set (history t)"
    using p by (rule set_mono_prefix)
  have "run_ok (history t) i (runs t ! i)" if i: "i < length (runs t)" for i
  proof (cases "i < length (runs s)")
    case True
    then have "run_ok (history s) i (runs s ! i)" using b by (simp add: barrier_def)
    then have "run_ok (history t) i (runs s ! i)" using m by (rule run_ok_mono)
    then show ?thesis using True by (simp add: r nth_append)
  next
    case False
    then have "runs t ! i = rs ! (i - length (runs s))" by (simp add: r nth_append)
    moreover have "i - length (runs s) < length rs" using i False by (simp add: r)
    ultimately have "runs t ! i \<in> set rs" by simp
    with n show ?thesis by (auto simp: run_ok_def)
  qed
  with g show ?thesis by (simp add: barrier_def)
qed

lemma barrier_newMiko: "barrier (newMiko fs ds)"
  by (simp add: barrier_def newMiko_def)

lemma cancel_Command_runs: "runs (cancel_Command kres s) = runs s"
  by (simp add: cancel_Command_eq printError_same act_def split: option.splits)

lemma barrier_cancel:
  assumes "barrier s"
  shows "barrier (cancel_Command kres s)"
proof (rule barrier_new_runs [OF assms, where rs = "[]"])
  show "runs (cancel_Command kres s) = runs s @ []"
    by (simp add: cancel_Command_runs)
  show "\<forall>r \<in> set []. \<not> stdout_done r \<and> \<not> stderr_done r \<and>
          (reaper r = None \<or> reaper r = Some AwaitStdout)"
    by simp
  show "prefix (history s) (history (cancel_Command kres s))"
    by (simp add: cancel_Command_eq printError_same act_def split: option.splits)
  show "waits (history (cancel_Command kres s)) = waits (history s)"
    by (simp add: cancel_Command_eq printError_same act_def waits_append split: option.splits)
qed

lemma waits_write_calls: "waits (write_calls ws) = []"
  by (induction ws) (auto simp: write_calls_def)

lemma waits_prepare: "waits (history (snd (prepare os dir s))) = waits (history s)"
proof -
  from wrote_prepare [of dir s os] obtain ws where
    "history (snd (prepare os dir s)) = history s @ write_calls ws"
    by (auto simp: wrote_def)
  then show ?thesis by (simp add: waits_append waits_write_calls)
qed

lemma waits_mito: "waits (history (snd (mito keep os s))) = waits (history s)"
proof -
  have a: "waits (history (snd (MkdirTemp os s))) = waits (history s)"
    by (simp add: MkdirTemp_def act_def waits_append)
  have b: "waits (history (snd (prepare os dir (snd (MkdirTemp os s))))) = waits (history s)"
    for dir
    by (simp add: waits_prepare a)
  have c: "waits (history (RemoveAll dir x)) = waits (history x)" for dir x
    by (simp add: RemoveAll_def act_def waits_append)
  have d: "waits (history (snd (spawn keep os dir args x))) = waits (history x)" for dir args x
    by (simp add: spawn_eq waits_append split: option.splits sum.splits)
  show ?thesis
    by (simp add: mito_eq split_beta a b c d split: sum.splits)
qed

lemma spawn_new_runs:
  "\<exists>rs. runs (snd (spawn keep os dir args s)) = runs s @ rs \<and>
        (\<forall>r \<in> set rs. \<not> stdout_done r \<and> \<not> stderr_done r \<and>
           (reaper r = None \<or> reaper r = Some AwaitStdout))"
  by (simp add: spawn_eq new_run_def split: option.splits sum.splits)

lemma mito_new_runs:
  "\<exists>rs. runs (snd (mito keep os s)) = runs s @ rs \<and>
        (\<forall>r \<in> set rs. \<not> stdout_done r \<and> \<not> stderr_done r \<and>
           (reaper r = None \<or> reaper r = Some AwaitStdout))"
proof -
  have a: "runs (snd (MkdirTemp os s)) = runs s"
    using quiet_MkdirTemp [of s os] by (simp add: quiet_def)
  have b: "runs (snd (prepare os dir (snd (MkdirTemp os s)))) = runs s" for dir
    using quiet_mkdir_prepare [of s os dir] by (simp add: quiet_def)
  have c: "runs (RemoveAll dir (snd (prepare os dir (snd (MkdirTemp os s))))) = runs s" for dir
    using quiet_mkdir_prepare_remove [of s dir os] by (simp add: quiet_def)
  have d: "\<exists>rs. runs (snd (spawn keep os dir args (snd (prepare os dir (snd (MkdirTemp os s)))))) =
             runs s @ rs \<and>
           (\<forall>r \<in> set rs. \<not> stdout_done r \<and> \<not> stderr_done r \<and>
              (reaper r = None \<or> reaper r = Some AwaitStdout))"
    for dir args
    using spawn_new_runs [of keep os dir args "snd (prepare os dir (snd (MkdirTemp os s)))"]
    by (simp add: b)
  show ?thesis
    using a c d by (simp add: mito_eq split_beta split: sum.splits)
qed

lemma barrier_mito:
  assumes "barrier s"
  shows "barrier (snd (mito keep os s))"
proof -
  from mito_new_runs [of keep os s] obtain rs where
    r: "runs (snd (mito keep os s)) = runs s @ rs"
    and n: "\<forall>r \<in> set rs. \<not> stdout_done r \<and> \<not> stderr_done r \<and>
              (reaper r = None \<or> reaper r = Some AwaitStdout)"
    by blast
  have p: "prefix (history s) (history (snd (mito keep os s)))"
    using calm_mito [of s keep os] by (simp add: calm_def)
  show ?thesis
    by (rule barrier_new_runs [OF assms r n p waits_mito])
qed

lemma barrier_run:
  assumes "barrier s"
  shows "barrier (run_Command kres os s)"
proof -
  let ?c = "cancel_Command kres s"
  have "barrier (snd (mito False os ?c))"
    by (rule barrier_mito [OF barrier_cancel [OF assms]])
  moreover have "runs (run_Command kres os s) = runs (snd (mito False os ?c))"
    by (simp add: run_Command_eq printError_same)
  moreover have "history (run_Command kres os s) = history (snd (mito False os ?c))"
    by (simp add: run_Command_eq printError_same)
  ultimately show ?thesis by (simp add: barrier_def)
qed

lemma barrier_perform:
  assumes "barrier s" and "i < length (runs s)"
  shows "barrier (perform st i e s)"
proof (cases e)
  case (Send t)
  then show ?thesis using assms(1) by (simp add: send_def ticker_def barrier_def)
next
  case (Println line)
  then show ?thesis using assms(1) by (simp add: barrier_def)
next
  case Return
  have g: "gated [] (history (cancel_ctx st i s))"
    using assms(1) by (cases st) (simp_all add: cancel_ctx_def act_def gated_append barrier_def)
  have "run_ok (history (cancel_ctx st i s)) j (runs (cancel_ctx st i s) ! j)"
    if j: "j < length (runs s)" for j
  proof -
    have "run_ok (history s) j (runs s ! j)" using assms(1) j by (simp add: barrier_def)
    then show ?thesis
      using j by (cases st; cases "i = j") (auto simp: cancel_ctx_def act_def run_ok_def)
  qed
  moreover have "length (runs (cancel_ctx st i s)) = length (runs s)"
    by (cases st) (simp_all add: cancel_ctx_def act_def)
  ultimately show ?thesis using g Return by (simp add: barrier_def)
qed

lemma barrier_fold_perform:
  "barrier s \<Longrightarrow> i < length (runs s) \<Longrightarrow> barrier (fold (perform st i) es s)"
  by (induction es arbitrary: s) (simp_all add: barrier_perform runs_length_perform)

lemma finalize_history:
  "history (finalize i s) =
     history s @ CallWait i #
       (if run_keep (runs s ! i) then [] else [CallRemoveAll (run_dir (runs s ! i))])"
  by (simp add: finalize_def RemoveAll_def act_def Let_def)

lemma finalize_runs: "runs (finalize i s) = runs s"
  by (simp add: finalize_def RemoveAll_def act_def Let_def)

lemma barrier_set_reaper:
  assumes b: "barrier s" and i: "i < length (runs s)"
    and h: "runs t = runs s" "prefix (history s) (history t)" "gated [] (history t)"
    and c: "pc = AwaitStderr \<longrightarrow> stdout_done (runs s ! i)"
      "pc = Ready \<or> pc = Finished \<longrightarrow> stdout_done (runs s ! i) \<and> stderr_done (runs s ! i)"
  shows "barrier (set_reaper i pc t)"
proof -
  have m: "set (history s) \<subseteq> set (history t)"
    using h(2) by (rule set_mono_prefix)
  have "run_ok (history t) j (runs (set_reaper i pc t) ! j)" if j: "j < length (runs s)" for j
  proof -
    have "run_ok (history s) j (runs s ! j)" using b j by (simp add: barrier_def)
    then have r: "run_ok (history t) j (runs s ! j)" using m by (rule run_ok_mono)
    show ?thesis
    proof (cases "i = j")
      case True
      with r c j show ?thesis by (auto simp: set_reaper_def h(1) run_ok_def)
    next
      case False
      with r j show ?thesis by (simp add: set_reaper_def h(1))
    qed
  qed
  then show ?thesis using h(3) by (simp add: barrier_def set_reaper_def h(1))
qed

lemma barrier_finalize:
  assumes b: "barrier s" and i: "i < length (runs s)" and r: "reaper (runs s ! i) = Some Ready"
  shows "barrier (set_reaper i Finished (finalize i s))"
proof -
  have k: "run_ok (history s) i (runs s ! i)" using b i by (simp add: barrier_def)
  with r have d: "stdout_done (runs s ! i)" "stderr_done (runs s ! i)"
    "StdoutDone i \<in> set (history s)" "StderrDone i \<in> set (history s)"
    by (simp_all add: run_ok_def)
  have g: "gated [] (history (finalize i s))"
    using b d(3,4) by (simp add: finalize_history gated_append barrier_def)
  show ?thesis
    by (rule barrier_set_reaper [OF b i finalize_runs _ g])
       (simp_all add: finalize_history d)
qed

lemma barrier_step:
  assumes b: "barrier s" and s: "step mi s ev = Some t"
  shows "barrier t"
proof (cases ev)
  case (RunClick kres os)
  with b s show ?thesis by (auto simp: barrier_run)
next
  case (CancelClick kres)
  with b s show ?thesis by (auto simp: barrier_cancel)
next
  case ClearClick
  with b s show ?thesis by (auto simp: clear_Command_def barrier_def)
next
  case ToggleInsecure
  with b s show ?thesis by (auto simp: barrier_def)
next
  case ToggleLogRequests
  with b s show ?thesis by (auto simp: barrier_def)
next
  case ToggleDumpCrash
  with b s show ?thesis by (auto simp: barrier_def)
next
  case (EditSrc x)
  with b s show ?thesis by (auto simp: barrier_def)
next
  case (EditData x)
  with b s show ?thesis by (auto simp: barrier_def)
next
  case (EditCfg x)
  with b s show ?thesis by (auto simp: barrier_def)
next
  case (StdoutPass i r)
  with s have "i < length (runs s)" "t = fold (perform Stdout i) (stdout_pass mi r) s"
    by (simp_all split: if_splits)
  with b show ?thesis by (simp add: barrier_fold_perform)
next
  case (StderrPass i r)
  with s have "i < length (runs s)" "t = fold (perform Stderr i) (stderr_pass r) s"
    by (simp_all split: if_splits)
  with b show ?thesis by (simp add: barrier_fold_perform)
next
  case (ReaperStep i)
  with s have i: "i < length (runs s)" by (simp split: if_splits)
  have g: "gated [] (history s)" using b by (simp add: barrier_def)
  have k: "run_ok (history s) i (runs s ! i)" using b i by (simp add: barrier_def)
  from s ReaperStep i obtain pc where pc: "reaper (runs s ! i) = Some pc"
    by (cases "reaper (runs s ! i)") simp_all
  show ?thesis
  proof (cases pc)
    case AwaitStdout
    with s ReaperStep i pc have d: "stdout_done (runs s ! i)" "t = set_reaper i AwaitStderr s"
      by (simp_all split: if_splits)
    show ?thesis unfolding d(2)
      by (rule barrier_set_reaper [OF b i refl _ g]) (simp_all add: d(1))
  next
    case AwaitStderr
    with s ReaperStep i pc have d: "stderr_done (runs s ! i)" "t = set_reaper i Ready s"
      by (simp_all split: if_splits)
    have "stdout_done (runs s ! i)" using k pc AwaitStderr by (simp add: run_ok_def)
    with d(1) show ?thesis unfolding d(2)
      by - (rule barrier_set_reaper [OF b i refl _ g], simp_all)
  next
    case Ready
    with s ReaperStep i pc have "t = set_reaper i Finished (finalize i s)" by simp
    then show ?thesis using barrier_finalize [OF b i] pc Ready by simp
  next
    case Finished
    with s ReaperStep i pc show ?thesis by simp
  qed
qed

lemma barrier_exec: "barrier s \<Longrightarrow> exec mi s evs = Some t \<Longrightarrow> barrier t"
proof (induction evs arbitrary: s)
  case Nil
  then show ?case by simp
next
  case (Cons e es)
  from Cons.prems(2) obtain u where u: "step mi s e = Some u" "exec mi u es = Some t"
    by (auto split: option.splits)
  from Cons.IH [OF barrier_step [OF Cons.prems(1) u(1)] u(2)] show ?case .
qed

text \<open>
  C2. In every state the program reaches from its start, whatever the user and the
  streams do: each \<^verbatim>\<open>cmd.Wait\<close> of a run in the history comes after the done signals
  of both readers of that run; a step of the reaping goroutine of a run whose two
  done signals have not both fired waits for nothing, leaves \<^verbatim>\<open>m.ps\<close> alone and
  removes nothing; and a kill fires no done signal, so that this holds as well when
  the process is killed right after its start.
\<close>
theorem finalize_after_both_done:
  assumes "exec mi (newMiko fs ds) evs = Some s"
  shows
    "(\<forall>pre i post. history s = pre @ CallWait i # post \<longrightarrow>
        StdoutDone i \<in> set pre \<and> StderrDone i \<in> set pre) \<and>
     (\<forall>i t. step mi s (ReaperStep i) = Some t \<longrightarrow>
        (stdout_done (runs s ! i) \<and> stderr_done (runs s ! i) \<and>
         StdoutDone i \<in> set (history s) \<and> StderrDone i \<in> set (history s)) \<or>
        (ps t = ps s \<and> files t = files s \<and> dirs t = dirs s \<and> history t = history s)) \<and>
     (\<forall>kres. runs (cancel_Command kres s) = runs s \<and>
        waits (history (cancel_Command kres s)) = waits (history s))"
proof -
  have b: "barrier s"
    by (rule barrier_exec [OF barrier_newMiko assms])
  have 1: "StdoutDone i \<in> set pre \<and> StderrDone i \<in> set pre"
    if "history s = pre @ CallWait i # post" for pre i post
    using b that gated_wait [of "[]" pre i post] by (simp add: barrier_def)
  have 2: "(stdout_done (runs s ! i) \<and> stderr_done (runs s ! i) \<and>
         StdoutDone i \<in> set (history s) \<and> StderrDone i \<in> set (history s)) \<or>
        (ps t = ps s \<and> files t = files s \<and> dirs t = dirs s \<and> history t = history s)"
    if s: "step mi s (ReaperStep i) = Some t" for i t
  proof -
    from s have i: "i < length (runs s)" by (simp split: if_splits)
    have k: "run_ok (history s) i (runs s ! i)" using b i by (simp add: barrier_def)
    from s i obtain pc where pc: "reaper (runs s ! i) = Some pc"
      by (cases "reaper (runs s ! i)") simp_all
    show ?thesis
    proof (cases "pc = Ready")
      case True
      with k pc show ?thesis by (simp add: run_ok_def)
    next
      case False
      with s i pc have "t = set_reaper i AwaitStderr s \<or> t = set_reaper i Ready s"
        by (cases pc) (simp_all split: if_splits)
      then show ?thesis by (auto simp: set_reaper_def)
    qed
  qed
  have 3: "runs (cancel_Command kres s) = runs s \<and>
        waits (history (cancel_Command kres s)) = waits (history s)" for kres
    by (simp add: cancel_Command_eq printError_same act_def waits_append split: option.splits)
  from 1 2 3 show ?thesis by blast
qed

theorem finalize_after_both_done_witness:
  "map_option (\<lambda>t. (history t, step (\<lambda>v::nat. Inr ''1'') t (ReaperStep 0)))
     (exec (\<lambda>v::nat. Inr ''1'') (newMiko [] [])
        [EditSrc ''1'', RunClick None (all_ok ''/tmp/miko-1'' 7), CancelClick None]) =
     Some ([CallMkdirTemp, CallWriteFile ''/tmp/miko-1/src.cel'' ''1'',
            CallCommand ''mito'' [''/tmp/miko-1/src.cel''],
            CallStdoutPipe, CallStderrPipe, CallStart, CallKill 7], None) \<and>
   map_option history
     (exec (\<lambda>v::nat. Inr ''1'') (newMiko [] [])
        [EditSrc ''1'', RunClick None (all_ok ''/tmp/miko-1'' 7), CancelClick None,
         StdoutPass 0 (DecodeError EOF), StderrPass 0 (ScanEnd None),
         ReaperStep 0, ReaperStep 0, ReaperStep 0]) =
     Some [CallMkdirTemp, CallWriteFile ''/tmp/miko-1/src.cel'' ''1'',
           CallCommand ''mito'' [''/tmp/miko-1/src.cel''],
           CallStdoutPipe, CallStderrPipe, CallStart, CallKill 7,
           StdoutDone 0, StderrDone 0, CallWait 0, CallRemoveAll ''/tmp/miko-1''] \<and>
   StdoutDone 0 \<in> set [CallMkdirTemp, CallWriteFile ''/tmp/miko-1/src.cel'' ''1'',
           CallCommand ''mito'' [''/tmp/miko-1/src.cel''],
           CallStdoutPipe, CallStderrPipe, CallStart, CallKill 7,
           StdoutDone 0, StderrDone (0::nat)]"
  using finalize_after_both_done
    [where mi = "\<lambda>v::nat. Inr ''1''" and fs = "[]" and ds = "[]"
       and evs = "[EditSrc ''1'', RunClick None (all_ok ''/tmp/miko-1'' 7), CancelClick None,
         StdoutPass 0 (DecodeError EOF), StderrPass 0 (ScanEnd None),
         ReaperStep 0, ReaperStep 0, ReaperStep 0]"
       and s = "the (exec (\<lambda>v::nat. Inr ''1'') (newMiko [] [])
        [EditSrc ''1'', RunClick None (all_ok ''/tmp/miko-1'' 7), CancelClick None,
         StdoutPass 0 (DecodeError EOF), StderrPass 0 (ScanEnd None),
         ReaperStep 0, ReaperStep 0, ReaperStep 0])",
     THEN conjunct1, rule_format,
     where pre = "[CallMkdirTemp, CallWriteFile ''/tmp/miko-1/src.cel'' ''1'',
           CallCommand ''mito'' [''/tmp/miko-1/src.cel''],
           CallStdoutPipe, CallStderrPipe, CallStart, CallKill 7,
           StdoutDone 0, StderrDone 0]"
       and i = 0 and post = "[CallRemoveAll ''/tmp/miko-1'']"]
  by (simp add: model_defs)

end
